theory Spec2Isabelle
  imports Main "HOL-Library.AList" "HOL-Library.Sublist"
begin

section \<open>The scaffolding command \<open>bin/cli.js\<close>\<close>

text \<open>
  The program is one asynchronous function, \<open>init\<close>, run once per process. It asks two
  questions through the \<open>prompts\<close> package, resolves two paths with Node's \<open>path\<close> module,
  checks the target with \<open>fs.existsSync\<close> and copies the template with \<open>fs.copy\<close> of
  \<open>fs-extra\<close>. The three packages are not part of the repository: each call is modelled by
  a function that follows the package's documented behaviour on POSIX, and \<open>init\<close> itself
  is translated statement by statement. The result of a run is an \<open>outcome\<close>: exit status,
  console lines, the questions shown, the filesystem calls made and the filesystem left.
\<close>

subsection \<open>Path strings: \<open>path.resolve\<close> and \<open>path.dirname\<close> (POSIX)\<close>

text \<open>\<open>s.split(c)\<close> of JavaScript: the pieces between the separators, empty pieces kept.\<close>

primrec splitc :: "char \<Rightarrow> string \<Rightarrow> string list" where
  "splitc c [] = [[]]"
| "splitc c (x # xs) =
     (if x = c then [] # splitc c xs
      else (case splitc c xs of [] \<Rightarrow> [[x]] | s # ss \<Rightarrow> (x # s) # ss))"

fun join :: "string list \<Rightarrow> string" where
  "join [] = []"
| "join [s] = s"
| "join (s # t # ss) = s @ CHR ''/'' # join (t # ss)"

text \<open>
  One segment of Node's \<open>normalizeString\<close>; \<open>acc\<close> holds the segments kept so far, last
  first. An empty segment and \<open>.\<close> are dropped; \<open>..\<close> removes the segment before it, and
  is kept only above the root of a relative path.
\<close>

definition normalize_step :: "bool \<Rightarrow> string list \<Rightarrow> string \<Rightarrow> string list" where
  "normalize_step allowAboveRoot acc seg =
     (if seg = [] \<or> seg = ''.'' then acc
      else if seg = ''..'' then
        (case acc of
           [] \<Rightarrow> if allowAboveRoot then [''..''] else []
         | s # r \<Rightarrow> if s = ''..'' then (if allowAboveRoot then ''..'' # acc else acc) else r)
      else seg # acc)"

definition normalize_segments :: "bool \<Rightarrow> string list \<Rightarrow> string list" where
  "normalize_segments allowAboveRoot segs = rev (foldl (normalize_step allowAboveRoot) [] segs)"

definition normalizeString :: "string \<Rightarrow> bool \<Rightarrow> string" where
  "normalizeString path allowAboveRoot =
     join (normalize_segments allowAboveRoot (splitc CHR ''/'' path))"

definition isAbsolute :: "string \<Rightarrow> bool" where
  "isAbsolute p = (case p of [] \<Rightarrow> False | c # _ \<Rightarrow> c = CHR ''/'')"

text \<open>
  The loop of \<open>path.resolve\<close>: the arguments are read from the last to the first, then the
  process's working directory, until an absolute one has been prepended. The list given
  here is already in that order.
\<close>

fun resolve_loop :: "string list \<Rightarrow> string \<Rightarrow> string \<times> bool" where
  "resolve_loop [] resolvedPath = (resolvedPath, False)"
| "resolve_loop (p # ps) resolvedPath =
     (if p = [] then resolve_loop ps resolvedPath
      else if isAbsolute p then (p @ CHR ''/'' # resolvedPath, True)
      else resolve_loop ps (p @ CHR ''/'' # resolvedPath))"

definition path_resolve :: "string \<Rightarrow> string list \<Rightarrow> string" where
  "path_resolve process_cwd args =
     (case resolve_loop (rev args @ [process_cwd]) [] of
        (resolvedPath, resolvedAbsolute) \<Rightarrow>
          (let r = normalizeString resolvedPath (\<not> resolvedAbsolute)
           in if resolvedAbsolute then CHR ''/'' # r
              else if r = [] then ''.'' else r))"

text \<open>
  \<open>path.dirname\<close>: trailing slashes and the last segment are removed, scanning from the
  end down to index 1; the slash that ends the scan is not part of the result.
\<close>

definition path_dirname :: "string \<Rightarrow> string" where
  "path_dirname p =
     (case p of
        [] \<Rightarrow> ''.''
      | c # cs \<Rightarrow>
          (let hasRoot = (c = CHR ''/'');
               rest = dropWhile (\<lambda>x. x \<noteq> CHR ''/'') (dropWhile (\<lambda>x. x = CHR ''/'') (rev cs))
           in if rest = [] then (if hasRoot then ''/'' else ''.'')
              else if hasRoot \<and> length rest = 1 then ''//''
              else c # rev (tl rest)))"

subsection \<open>The filesystem\<close>

text \<open>
  A filesystem is the tree below the root directory: regular files with their bytes and
  directories with their entries, in directory order. Symbolic links are not modelled.
  A path is the list of its segments from the root.
\<close>

datatype node = File string | Dir "(string \<times> node) list"

type_synonym segments = "string list"

fun lookup :: "node \<Rightarrow> segments \<Rightarrow> node option" where
  "lookup n [] = Some n"
| "lookup (File b) (k # p) = None"
| "lookup (Dir es) (k # p) = (case map_of es k of None \<Rightarrow> None | Some c \<Rightarrow> lookup c p)"

text \<open>
  \<open>graft p new root\<close> puts \<open>new\<close> at \<open>p\<close>: it replaces the entry there, or appends a new
  entry to the parent directory. Where the parent is missing or is a file nothing changes;
  the operations below test for that first and fail.
\<close>

fun graft :: "segments \<Rightarrow> node \<Rightarrow> node \<Rightarrow> node" where
  "graft [] new root = new"
| "graft (k # p) new (File b) = File b"
| "graft (k # p) new (Dir es) =
     (case map_of es k of
        Some c \<Rightarrow> Dir (AList.update k (graft p new c) es)
      | None \<Rightarrow> if p = [] then Dir (es @ [(k, new)]) else Dir es)"

text \<open>Directory entries have distinct names, at every level.\<close>

fun wf_node :: "node \<Rightarrow> bool" and wf_entries :: "(string \<times> node) list \<Rightarrow> bool" where
  "wf_node (File b) = True"
| "wf_node (Dir es) = (distinct (map fst es) \<and> wf_entries es)"
| "wf_entries [] = True"
| "wf_entries ((k, c) # es) = (wf_node c \<and> wf_entries es)"

text \<open>
  The kernel walks a path string segment by segment; empty segments and \<open>.\<close> stay in
  place and \<open>..\<close> goes up. Every path \<open>init\<close> passes is absolute.
\<close>

definition fs_path :: "string \<Rightarrow> segments" where
  "fs_path p = normalize_segments False (splitc CHR ''/'' p)"

definition existsSync :: "node \<Rightarrow> string \<Rightarrow> bool" where
  "existsSync fs p = (lookup fs (fs_path p) \<noteq> None)"

datatype io_error =
    ENOENT segments
  | ENOTDIR segments
  | EEXIST segments
  | EISDIR segments
  | EACCES segments
  | SubdirOfSelf segments segments

text \<open>
  I/O errors that do not follow from the tree (permissions, a full disk) come from the
  environment: \<open>flt p\<close> says that creating or writing \<open>p\<close> fails.
\<close>

type_synonym fault = "segments \<Rightarrow> bool"

definition mkdir :: "fault \<Rightarrow> segments \<Rightarrow> node \<Rightarrow> io_error option \<times> node" where
  "mkdir flt p fs =
     (case lookup fs p of
        Some _ \<Rightarrow> (Some (EEXIST p), fs)
      | None \<Rightarrow>
          (case lookup fs (butlast p) of
             None \<Rightarrow> (Some (ENOENT p), fs)
           | Some (File _) \<Rightarrow> (Some (ENOTDIR p), fs)
           | Some (Dir _) \<Rightarrow>
               if flt p then (Some (EACCES p), fs) else (None, graft p (Dir []) fs)))"

definition copyFile :: "fault \<Rightarrow> string \<Rightarrow> segments \<Rightarrow> node \<Rightarrow> io_error option \<times> node" where
  "copyFile flt bytes p fs =
     (case lookup fs p of
        Some (Dir _) \<Rightarrow> (Some (EISDIR p), fs)
      | _ \<Rightarrow>
          (case lookup fs (butlast p) of
             None \<Rightarrow> (Some (ENOENT p), fs)
           | Some (File _) \<Rightarrow> (Some (ENOTDIR p), fs)
           | Some (Dir _) \<Rightarrow>
               if flt p then (Some (EACCES p), fs) else (None, graft p (File bytes) fs)))"

text \<open>\<open>mkdirs\<close> of fs-extra: every missing directory of the path is created, outermost first.\<close>

fun mkdirs :: "fault \<Rightarrow> segments \<Rightarrow> segments \<Rightarrow> node \<Rightarrow> io_error option \<times> node" where
  "mkdirs flt pre [] fs = (None, fs)"
| "mkdirs flt pre (k # ks) fs =
     (case lookup fs (pre @ [k]) of
        Some (Dir _) \<Rightarrow> mkdirs flt (pre @ [k]) ks fs
      | Some (File _) \<Rightarrow> (Some (ENOTDIR (pre @ [k])), fs)
      | None \<Rightarrow>
          (case mkdir flt (pre @ [k]) fs of
             (Some e, fs') \<Rightarrow> (Some e, fs')
           | (None, fs') \<Rightarrow> mkdirs flt (pre @ [k]) ks fs'))"

text \<open>
  The recursive part of \<open>fs.copy\<close>, on the source entry read before the copy began: a file
  is written over a file or to a new name; a directory is created unless it exists, and
  then each of its entries is copied. fs-extra starts the copies of all entries of a
  directory together, so an entry that fails does not keep the others from being copied:
  a directory that could not be created gets no entries, every other entry is copied as
  far as it can be. The error returned is that of the first entry, in directory order,
  that failed.
\<close>

fun copy_node :: "fault \<Rightarrow> node \<Rightarrow> segments \<Rightarrow> node \<Rightarrow> io_error option \<times> node"
and copy_children :: "fault \<Rightarrow> (string \<times> node) list \<Rightarrow> segments \<Rightarrow> node \<Rightarrow> io_error option \<times> node" where
  "copy_node flt (File bytes) dst fs = copyFile flt bytes dst fs"
| "copy_node flt (Dir es) dst fs =
     (case lookup fs dst of
        Some (File _) \<Rightarrow> (Some (ENOTDIR dst), fs)
      | Some (Dir _) \<Rightarrow> copy_children flt es dst fs
      | None \<Rightarrow>
          (case mkdir flt dst fs of
             (Some e, fs') \<Rightarrow> (Some e, fs')
           | (None, fs') \<Rightarrow> copy_children flt es dst fs'))"
| "copy_children flt [] dst fs = (None, fs)"
| "copy_children flt ((k, c) # es) dst fs =
     (case copy_node flt c (dst @ [k]) fs of
        (err, fs') \<Rightarrow>
          (case copy_children flt es dst fs' of
             (err', fs'') \<Rightarrow> ((case err of Some e \<Rightarrow> Some e | None \<Rightarrow> err'), fs'')))"

definition is_dir :: "node \<Rightarrow> bool" where
  "is_dir n = (case n of Dir _ \<Rightarrow> True | File _ \<Rightarrow> False)"

text \<open>
  \<open>fs.copy(src, dest)\<close> with the default options: the source must exist, a directory is
  not copied into itself, the parent of the destination is created when it is missing,
  then the tree is copied.
\<close>

definition copy :: "fault \<Rightarrow> node \<Rightarrow> string \<Rightarrow> string \<Rightarrow> io_error option \<times> node" where
  "copy flt fs src dest =
     (let s = fs_path src; d = fs_path dest
      in case lookup fs s of
           None \<Rightarrow> (Some (ENOENT s), fs)
         | Some n \<Rightarrow>
             if is_dir n \<and> prefix s d then (Some (SubdirOfSelf s d), fs)
             else (case mkdirs flt [] (butlast d) fs of
                     (Some e, fs') \<Rightarrow> (Some e, fs')
                   | (None, fs') \<Rightarrow> copy_node flt n d fs'))"

subsection \<open>The questions: \<open>prompts\<close>\<close>

text \<open>
  A question is a list to select from (name, choices as title and value) or a line of
  text (name, initial value). The user either answers a question or aborts it. The cursor
  of a select never leaves the list; an empty line of text stands for the initial value.
  \<open>prompts\<close> asks the questions in order, each once; the first abort ends the exchange and
  the answers given so far are returned.
\<close>

datatype question = Select string "(string \<times> string) list" | Text string string

datatype 'a input = Answer 'a | Abort

record user =
  at_select :: "nat input"
  at_text :: "string input"

fun question_name :: "question \<Rightarrow> string" where
  "question_name (Select name choices) = name"
| "question_name (Text name initial) = name"

fun ask :: "question \<Rightarrow> user \<Rightarrow> string option" where
  "ask (Select name choices) u =
     (case at_select u of
        Abort \<Rightarrow> None
      | Answer i \<Rightarrow>
          if choices = [] then None else Some (snd (choices ! min i (length choices - 1))))"
| "ask (Text name initial) u =
     (case at_text u of
        Abort \<Rightarrow> None
      | Answer s \<Rightarrow> Some (if s = [] then initial else s))"

type_synonym response = "string \<rightharpoonup> string"

fun prompts_loop :: "question list \<Rightarrow> user \<Rightarrow> response \<Rightarrow> string list \<Rightarrow> response \<times> string list" where
  "prompts_loop [] u answers asked = (answers, asked)"
| "prompts_loop (q # qs) u answers asked =
     (case ask q u of
        None \<Rightarrow> (answers, asked @ [question_name q])
      | Some v \<Rightarrow> prompts_loop qs u (answers(question_name q \<mapsto> v)) (asked @ [question_name q]))"

definition prompts :: "question list \<Rightarrow> user \<Rightarrow> response \<times> string list" where
  "prompts qs u = prompts_loop qs u Map.empty []"

subsection \<open>\<open>init\<close>\<close>

record env =
  script_file :: string
  cwd :: string
  fs :: node
  io_fault :: fault

datatype fs_call = ExistsSync string | Copy string string

datatype message =
    Welcome
  | Cancelled
  | AlreadyExists string
  | Creating string
  | Created
  | NextSteps
  | CdInto string
  | RunOpencode
  | CopyFailed io_error

record outcome =
  exit_code :: nat
  stdout :: "message list"
  stderr :: "message list"
  asked :: "string list"
  fs_calls :: "fs_call list"
  fs_after :: node

text \<open>Lines 14 to 30: the two questions.\<close>

definition questions :: "question list" where
  "questions =
     [Select ''template''
        [(''Content Creator (Blog, Social Media, Audits)'', ''content-creator'')],
      Text ''projectName'' ''my-opencode-workspace'']"

text \<open>Lines 8, 9, 37 and 38.\<close>

definition dirname :: "env \<Rightarrow> string" where
  "dirname e = path_dirname (script_file e)"

definition targetDir :: "env \<Rightarrow> string \<Rightarrow> string" where
  "targetDir e projectName = path_resolve (cwd e) [cwd e, projectName]"

definition templateDir :: "env \<Rightarrow> string \<Rightarrow> string" where
  "templateDir e template = path_resolve (cwd e) [dirname e, ''../templates'', template]"

text \<open>
  Lines 32 to 57, for the response \<open>prompts\<close> returned. A missing answer is \<open>undefined\<close> and
  the empty string is the only other falsy value an answer can have. \<open>process.exit(1)\<close>
  ends the run at once; a run that reaches the end of \<open>init\<close> leaves the exit status at 0,
  also through the \<open>catch\<close> of line 54, which only prints. Nothing outside the \<open>try\<close> throws,
  so the handler of line 59 never runs.
\<close>

definition init_body :: "env \<Rightarrow> response \<Rightarrow> string list \<Rightarrow> outcome" where
  "init_body e response shown =
     (let cancelled =
            \<lparr>exit_code = 1, stdout = [Welcome, Cancelled], stderr = [], asked = shown,
             fs_calls = [], fs_after = fs e\<rparr>
      in case (response ''template'', response ''projectName'') of
           (Some template, Some projectName) \<Rightarrow>
             if template = [] \<or> projectName = [] then cancelled
             else
               (let target = targetDir e projectName;
                    source = templateDir e template
                in if existsSync (fs e) target then
                     \<lparr>exit_code = 1, stdout = [Welcome, AlreadyExists projectName], stderr = [],
                      asked = shown, fs_calls = [ExistsSync target], fs_after = fs e\<rparr>
                   else
                     (case copy (io_fault e) (fs e) source target of
                        (None, fs') \<Rightarrow>
                          \<lparr>exit_code = 0,
                           stdout = [Welcome, Creating target, Created, NextSteps,
                                     CdInto projectName, RunOpencode],
                           stderr = [], asked = shown,
                           fs_calls = [ExistsSync target, Copy source target], fs_after = fs'\<rparr>
                      | (Some err, fs') \<Rightarrow>
                          \<lparr>exit_code = 0, stdout = [Welcome, Creating target],
                           stderr = [CopyFailed err], asked = shown,
                           fs_calls = [ExistsSync target, Copy source target], fs_after = fs'\<rparr>))
         | _ \<Rightarrow> cancelled)"

definition init :: "env \<Rightarrow> user \<Rightarrow> outcome" where
  "init e u = (case prompts questions u of (response, shown) \<Rightarrow> init_body e response shown)"

text \<open>The name the text question returns for the line the user submitted.\<close>

definition entered_name :: "string \<Rightarrow> string" where
  "entered_name s = (if s = [] then ''my-opencode-workspace'' else s)"

subsection \<open>Predicates of the statements\<close>

text \<open>
  A segment that \<open>normalizeString\<close> keeps as it is, and a list of such segments: what it
  leaves of a path below the root.
\<close>

definition ordinary :: "string \<Rightarrow> bool" where
  "ordinary s = (s \<noteq> [] \<and> s \<noteq> ''.'' \<and> s \<noteq> ''..'' \<and> CHR ''/'' \<notin> set s)"

definition clean :: "string list \<Rightarrow> bool" where
  "clean segs = list_all ordinary segs"

text \<open>No prefix of the path \<open>d\<close>, the root included, is a regular file.\<close>

definition no_file_above :: "node \<Rightarrow> segments \<Rightarrow> bool" where
  "no_file_above tr d =
     list_all (\<lambda>a. case lookup tr a of Some (File _) \<Rightarrow> False | _ \<Rightarrow> True) (prefixes d)"

subsection \<open>Concrete runs\<close>

text \<open>
  An installed package under \<open>/pkg\<close> with a small template, and a user directory that
  holds one file. \<open>faulty_env\<close> refuses the creation of one directory of the copy.
\<close>

definition example_fs :: node where
  "example_fs =
     Dir [(''pkg'',
           Dir [(''bin'', Dir [(''cli.js'', File ''js'')]),
                (''templates'',
                 Dir [(''content-creator'',
                      Dir [(''SKILL.md'', File ''skill''),
                           (''.opencode'',
                            Dir [(''commands'', Dir [(''draft.md'', File ''d'')])])])])]),
          (''home'', Dir [(''u'', Dir [(''notes.txt'', File ''n'')])])]"

definition example_env :: env where
  "example_env =
     \<lparr>script_file = ''/pkg/bin/cli.js'', cwd = ''/home/u'', fs = example_fs,
      io_fault = (\<lambda>p. False)\<rparr>"

definition faulty_env :: env where
  "faulty_env = example_env\<lparr>io_fault := (\<lambda>p. p = [''home'', ''u'', ''w'', ''.opencode''])\<rparr>"

definition user_of :: "string \<Rightarrow> user" where
  "user_of s = \<lparr>at_select = Answer 0, at_text = Answer s\<rparr>"

section \<open>Paths\<close>

subsection \<open>Splitting and joining\<close>

lemma splitc_nonempty: "splitc c xs \<noteq> []"
  by (induction xs) (auto split: list.splits)

lemma splitc_append_sep: "splitc c (a @ c # b) = splitc c a @ splitc c b"
proof (induction a)
  case Nil
  show ?case by simp
next
  case (Cons x a)
  obtain s ss where s: "splitc c a = s # ss"
    using splitc_nonempty [of c a] by (cases "splitc c a") auto
  show ?case using Cons s by simp
qed

lemma splitc_no_sep: "c \<notin> set s \<Longrightarrow> splitc c s = [s]"
  by (induction s) auto

lemma splitc_pieces: "s \<in> set (splitc c xs) \<Longrightarrow> c \<notin> set s"
proof (induction xs arbitrary: s)
  case Nil
  then show ?case by simp
next
  case (Cons x xs)
  obtain t ts where t: "splitc c xs = t # ts"
    using splitc_nonempty [of c xs] by (cases "splitc c xs") auto
  show ?case
  proof (cases "x = c")
    case True
    with Cons show ?thesis by auto
  next
    case False
    with Cons.prems t have "s = x # t \<or> s \<in> set ts" by simp
    then show ?thesis
    proof
      assume "s = x # t"
      moreover have "c \<notin> set t" using Cons.IH [of t] t by simp
      ultimately show ?thesis using False by simp
    next
      assume "s \<in> set ts"
      then show ?thesis using Cons.IH [of s] t by simp
    qed
  qed
qed

lemma splitc_join: "clean segs \<Longrightarrow> segs \<noteq> [] \<Longrightarrow> splitc CHR ''/'' (join segs) = segs"
proof (induction segs rule: join.induct)
  case 1
  then show ?case by simp
next
  case (2 s)
  then show ?case by (simp add: clean_def ordinary_def splitc_no_sep)
next
  case (3 s t ss)
  have "splitc CHR ''/'' (join (s # t # ss)) = splitc CHR ''/'' s @ splitc CHR ''/'' (join (t # ss))"
    by (simp add: splitc_append_sep)
  also have "splitc CHR ''/'' s = [s]"
    using 3(2) by (simp add: clean_def ordinary_def splitc_no_sep)
  also have "splitc CHR ''/'' (join (t # ss)) = t # ss"
    using 3 by (simp add: clean_def)
  finally show ?case by simp
qed

subsection \<open>Normalisation\<close>

lemma normalize_step_ordinary: "ordinary seg \<Longrightarrow> normalize_step ab acc seg = seg # acc"
  by (simp add: normalize_step_def ordinary_def)

lemma normalize_step_empty: "normalize_step ab acc [] = acc"
  by (simp add: normalize_step_def)

lemma normalize_step_dot: "normalize_step ab acc ''.'' = acc"
  by (simp add: normalize_step_def)

lemma normalize_step_up: "normalize_step False acc ''..'' = (case acc of [] \<Rightarrow> [] | s # r \<Rightarrow> if s = ''..'' then acc else r)"
  by (simp add: normalize_step_def)

lemma not_ordinary_up: "\<not> ordinary ''..''"
  by (simp add: ordinary_def)

lemma foldl_step_clean:
  "clean segs \<Longrightarrow> foldl (normalize_step ab) acc segs = rev segs @ acc"
  by (induction segs arbitrary: acc) (simp_all add: clean_def normalize_step_ordinary)

lemma normalize_segments_clean: "clean segs \<Longrightarrow> normalize_segments ab segs = segs"
  by (simp add: normalize_segments_def foldl_step_clean)

lemma normalize_step_keeps_clean:
  assumes "clean acc" and "CHR ''/'' \<notin> set seg"
  shows "clean (normalize_step False acc seg)"
proof -
  consider "seg = []" | "seg = ''.''" | "seg = ''..''" | "ordinary seg"
    using assms(2) by (auto simp add: ordinary_def)
  then show ?thesis
  proof cases
    case 1
    then show ?thesis using assms(1) by (simp add: normalize_step_empty)
  next
    case 2
    then show ?thesis using assms(1) by (simp only: normalize_step_dot)
  next
    case 3
    then show ?thesis using assms(1)
      by (cases acc) (auto simp add: normalize_step_up clean_def not_ordinary_up)
  next
    case 4
    then show ?thesis using assms(1) by (simp add: normalize_step_ordinary clean_def)
  qed
qed

lemma foldl_step_keeps_clean:
  "clean acc \<Longrightarrow> \<forall>s \<in> set segs. CHR ''/'' \<notin> set s \<Longrightarrow>
     clean (foldl (normalize_step False) acc segs)"
  by (induction segs arbitrary: acc) (simp_all add: normalize_step_keeps_clean)

lemma clean_rev: "clean (rev segs) = clean segs"
  by (simp add: clean_def)

lemma clean_normalize_segments:
  "\<forall>s \<in> set segs. CHR ''/'' \<notin> set s \<Longrightarrow> clean (normalize_segments False segs)"
proof -
  assume a: "\<forall>s \<in> set segs. CHR ''/'' \<notin> set s"
  have "clean []" by (simp add: clean_def)
  then have "clean (foldl (normalize_step False) [] segs)"
    using a by (rule foldl_step_keeps_clean)
  then show ?thesis by (simp add: normalize_segments_def clean_rev)
qed

lemma clean_normalize_split: "clean (normalize_segments False (splitc CHR ''/'' p))"
  by (rule clean_normalize_segments) (simp add: splitc_pieces)

lemma normalize_segments_drop_empty_last:
  "normalize_segments ab (segs @ [[]]) = normalize_segments ab segs"
  by (simp add: normalize_segments_def normalize_step_empty)

lemma normalize_segments_drop_empty_first:
  "normalize_segments ab ([] # segs) = normalize_segments ab segs"
  by (simp add: normalize_segments_def normalize_step_empty)

lemma normalize_split_rooted:
  "clean segs \<Longrightarrow> normalize_segments False (splitc CHR ''/'' (CHR ''/'' # join segs)) = segs"
proof (cases "segs = []")
  case True
  then show ?thesis by (simp add: normalize_segments_def normalize_step_empty)
next
  case False
  assume c: "clean segs"
  with False have "splitc CHR ''/'' (CHR ''/'' # join segs) = [] # segs"
    by (simp add: splitc_join)
  then show ?thesis
    using c by (simp only: normalize_segments_drop_empty_first normalize_segments_clean)
qed

lemma normalize_split_rooted_slash:
  "clean segs \<Longrightarrow>
     normalize_segments False (splitc CHR ''/'' (CHR ''/'' # join segs @ ''/'')) = segs"
proof -
  assume c: "clean segs"
  have "splitc CHR ''/'' (CHR ''/'' # join segs @ ''/'') =
        splitc CHR ''/'' (CHR ''/'' # join segs) @ [[]]"
    using splitc_append_sep [of "CHR ''/''" "CHR ''/'' # join segs" "[]"] by simp
  then show ?thesis
    using c by (simp only: normalize_segments_drop_empty_last normalize_split_rooted)
qed

subsection \<open>Resolution\<close>

lemma isAbsolute_dirname: "isAbsolute p \<Longrightarrow> isAbsolute (path_dirname p)"
  by (cases p) (simp_all add: isAbsolute_def path_dirname_def Let_def)

lemma isAbsolute_nonempty: "isAbsolute p \<Longrightarrow> p \<noteq> []"
  by (auto simp add: isAbsolute_def)

lemma templateDir_absolute_script:
  assumes "isAbsolute (script_file e)"
  shows "templateDir e t =
     CHR ''/'' # normalizeString
       (if t = [] then dirname e @ ''/../templates/''
        else if isAbsolute t then t @ ''/''
        else dirname e @ ''/../templates/'' @ t @ ''/'') False"
proof -
  have d: "isAbsolute (dirname e)" "dirname e \<noteq> []"
    using assms by (simp_all add: dirname_def isAbsolute_dirname isAbsolute_nonempty)
  have r: "\<not> isAbsolute ''../templates''"
    by (simp add: isAbsolute_def)
  show ?thesis
    using d r by (simp add: templateDir_def path_resolve_def Let_def)
qed

lemma path_resolve_cwd:
  assumes "isAbsolute c"
  shows "path_resolve c [c, raw] =
     CHR ''/'' # normalizeString
       (if raw = [] then c @ ''/''
        else if isAbsolute raw then raw @ ''/''
        else c @ ''/'' @ raw @ ''/'') False"
  using assms isAbsolute_nonempty [OF assms] by (simp add: path_resolve_def Let_def)

lemma path_resolve_cwd_clean:
  assumes "isAbsolute c"
  obtains segs where "path_resolve c [c, raw] = CHR ''/'' # join segs" and "clean segs"
  using path_resolve_cwd [OF assms, of raw] clean_normalize_split
  by (simp add: normalizeString_def)

lemma path_resolve_rooted:
  assumes "isAbsolute c" and "clean segs"
  shows "path_resolve c [c, CHR ''/'' # join segs] = CHR ''/'' # join segs"
proof -
  have "path_resolve c [c, CHR ''/'' # join segs] =
      CHR ''/'' # normalizeString ((CHR ''/'' # join segs) @ ''/'') False"
    using path_resolve_cwd [OF assms(1), of "CHR ''/'' # join segs"] by (simp add: isAbsolute_def)
  also have "normalizeString ((CHR ''/'' # join segs) @ ''/'') False = join segs"
    using normalize_split_rooted_slash [OF assms(2)] by (simp add: normalizeString_def)
  finally show ?thesis .
qed

lemma path_resolve_segments:
  assumes "isAbsolute c"
  shows "path_resolve c [c, raw] =
      CHR ''/'' # join (normalize_segments False
        (if raw = [] then splitc CHR ''/'' c
         else if isAbsolute raw then splitc CHR ''/'' raw
         else splitc CHR ''/'' c @ splitc CHR ''/'' raw))"
proof -
  have e: "splitc CHR ''/'' (x @ ''/'') = splitc CHR ''/'' x @ [[]]" for x
    using splitc_append_sep [of "CHR ''/''" x "[]"] by simp
  have "splitc CHR ''/'' (c @ ''/'' @ raw @ ''/'') =
      splitc CHR ''/'' c @ splitc CHR ''/'' (raw @ ''/'')"
    using splitc_append_sep [of "CHR ''/''" c "raw @ ''/''"] by simp
  then have j: "splitc CHR ''/'' (c @ ''/'' @ raw @ ''/'') =
      (splitc CHR ''/'' c @ splitc CHR ''/'' raw) @ [[]]"
    by (simp add: e)
  consider "raw = []" | "raw \<noteq> []" "isAbsolute raw" | "raw \<noteq> []" "\<not> isAbsolute raw"
    by blast
  then show ?thesis
  proof cases
    case 1
    then show ?thesis
      by (simp add: path_resolve_cwd [OF assms] normalizeString_def e
          normalize_segments_drop_empty_last)
  next
    case 2
    then show ?thesis
      by (simp add: path_resolve_cwd [OF assms] normalizeString_def e
          normalize_segments_drop_empty_last)
  next
    case 3
    then show ?thesis
      by (simp only: path_resolve_cwd [OF assms] normalizeString_def j
          normalize_segments_drop_empty_last if_False)
  qed
qed

lemma fs_path_targetDir:
  assumes "isAbsolute (cwd e)"
  shows "fs_path (targetDir e raw) =
      normalize_segments False
        (if raw = [] then splitc CHR ''/'' (cwd e)
         else if isAbsolute raw then splitc CHR ''/'' raw
         else splitc CHR ''/'' (cwd e) @ splitc CHR ''/'' raw)"
proof -
  let ?segs = "if raw = [] then splitc CHR ''/'' (cwd e)
         else if isAbsolute raw then splitc CHR ''/'' raw
         else splitc CHR ''/'' (cwd e) @ splitc CHR ''/'' raw"
  have "\<forall>x \<in> set ?segs. CHR ''/'' \<notin> set x"
    by (auto dest: splitc_pieces)
  then have "clean (normalize_segments False ?segs)"
    by (rule clean_normalize_segments)
  then have "normalize_segments False
      (splitc CHR ''/'' (CHR ''/'' # join (normalize_segments False ?segs))) =
      normalize_segments False ?segs"
    by (rule normalize_split_rooted)
  then show ?thesis
    by (simp only: fs_path_def targetDir_def path_resolve_segments [OF assms])
qed

section \<open>The filesystem operations\<close>

subsection \<open>Lookup and graft\<close>

lemma lookup_append:
  "lookup tr (a @ b) = (case lookup tr a of None \<Rightarrow> None | Some n \<Rightarrow> lookup n b)"
proof (induction a arbitrary: tr)
  case Nil
  show ?case by simp
next
  case (Cons k a)
  show ?case
  proof (cases tr)
    case (File bytes)
    then show ?thesis by simp
  next
    case (Dir es)
    then show ?thesis using Cons by (simp split: option.splits)
  qed
qed

lemma lookup_File_below: "r \<noteq> [] \<Longrightarrow> lookup (File bytes) r = None"
  by (cases r) simp_all

lemma lookup_empty_Dir_below: "r \<noteq> [] \<Longrightarrow> lookup (Dir []) r = None"
  by (cases r) simp_all

lemma lookup_prefix_Dir:
  assumes "lookup tr (a @ r) = Some x" and "r \<noteq> []"
  shows "\<exists>es. lookup tr a = Some (Dir es)"
proof (cases "lookup tr a")
  case None
  with assms show ?thesis by (simp add: lookup_append)
next
  case (Some n)
  with assms show ?thesis by (cases n) (simp_all add: lookup_append lookup_File_below)
qed

lemma map_of_snoc_new: "map_of es k = None \<Longrightarrow> map_of (es @ [(k, v)]) k = Some v"
  by (simp add: map_add_def)

lemma lookup_graft_existing:
  "lookup tr p = Some x \<Longrightarrow> lookup (graft p n tr) p = Some n"
proof (induction p arbitrary: tr x)
  case Nil
  show ?case by simp
next
  case (Cons k p)
  show ?case
  proof (cases tr)
    case (File bytes)
    with Cons.prems show ?thesis by simp
  next
    case (Dir es)
    with Cons.prems obtain c where c: "map_of es k = Some c" and l: "lookup c p = Some x"
      by (auto split: option.splits)
    show ?thesis using Dir c Cons.IH [OF l] by (simp add: update_conv')
  qed
qed

lemma lookup_graft_new:
  "p \<noteq> [] \<Longrightarrow> lookup tr (butlast p) = Some (Dir ds) \<Longrightarrow> lookup (graft p n tr) p = Some n"
proof (induction p arbitrary: tr)
  case Nil
  then show ?case by simp
next
  case (Cons k p)
  show ?case
  proof (cases "p = []")
    case True
    with Cons.prems have tr: "tr = Dir ds" by simp
    show ?thesis using True tr
      by (cases "map_of ds k") (simp_all add: update_conv' map_of_snoc_new del: map_of_append)
  next
    case False
    show ?thesis
    proof (cases tr)
      case (File bytes)
      with Cons.prems False show ?thesis by simp
    next
      case (Dir es)
      with Cons.prems False obtain c where c: "map_of es k = Some c"
        and l: "lookup c (butlast p) = Some (Dir ds)"
        by (auto split: option.splits)
      show ?thesis using Dir c Cons.IH [OF False l] by (simp add: update_conv')
    qed
  qed
qed

lemma update_update_same: "AList.update k b (AList.update k a es) = AList.update k b es"
  by (induction es) auto

lemma update_snoc_same: "map_of es k = None \<Longrightarrow> AList.update k b (es @ [(k, a)]) = es @ [(k, b)]"
  by (induction es) (auto split: if_splits)

lemma graft_graft: "graft p b (graft p a tr) = graft p b tr"
proof (induction p arbitrary: tr)
  case Nil
  show ?case by simp
next
  case (Cons k p)
  show ?case
  proof (cases tr)
    case (File bytes)
    then show ?thesis by simp
  next
    case (Dir es)
    show ?thesis
    proof (cases "map_of es k")
      case None
      then show ?thesis using Dir
        by (simp add: update_snoc_same map_of_snoc_new del: map_of_append)
    next
      case (Some c)
      then show ?thesis using Dir Cons.IH [of c] by (simp add: update_conv' update_update_same)
    qed
  qed
qed

lemma graft_snoc:
  "lookup tr dst = Some (Dir ds) \<Longrightarrow> map_of ds k = None \<Longrightarrow>
     graft (dst @ [k]) c tr = graft dst (Dir (ds @ [(k, c)])) tr"
proof (induction dst arbitrary: tr)
  case Nil
  then show ?case by simp
next
  case (Cons j dst)
  show ?case
  proof (cases tr)
    case (File bytes)
    with Cons.prems show ?thesis by simp
  next
    case (Dir es)
    with Cons.prems obtain c' where c': "map_of es j = Some c'"
      and l: "lookup c' dst = Some (Dir ds)"
      by (auto split: option.splits)
    show ?thesis using Dir c' Cons.IH [OF l Cons.prems(2)] by simp
  qed
qed

lemma graft_same: "lookup tr p = Some n \<Longrightarrow> graft p n tr = tr"
proof (induction p arbitrary: tr)
  case Nil
  then show ?case by simp
next
  case (Cons k p)
  show ?case
  proof (cases tr)
    case (File bytes)
    then show ?thesis by simp
  next
    case (Dir es)
    with Cons.prems obtain c where c: "map_of es k = Some c" and l: "lookup c p = Some n"
      by (auto split: option.splits)
    show ?thesis using Dir c Cons.IH [OF l] by (simp add: update_triv)
  qed
qed

lemma lookup_root_absent: "lookup tr p = None \<Longrightarrow> p \<noteq> []"
  by auto

lemma lookup_graft_other:
  "\<not> prefix p q \<Longrightarrow> \<not> prefix q p \<Longrightarrow> lookup (graft p n tr) q = lookup tr q"
proof (induction p arbitrary: q tr)
  case Nil
  then show ?case by simp
next
  case (Cons k p)
  from Cons.prems(2) obtain j q' where q: "q = j # q'" by (cases q) auto
  show ?case
  proof (cases tr)
    case (File bytes)
    then show ?thesis by simp
  next
    case (Dir es)
    show ?thesis
    proof (cases "map_of es k")
      case None
      show ?thesis
      proof (cases "j = k")
        case True
        with Cons.prems(1) q have "p \<noteq> []" by auto
        then show ?thesis using Dir None by simp
      next
        case False
        then show ?thesis using Dir None q
          by (cases "map_of es j") (simp_all add: map_add_def)
      qed
    next
      case (Some c)
      show ?thesis
      proof (cases "j = k")
        case True
        with Cons.prems q have "\<not> prefix p q'" "\<not> prefix q' p" by simp_all
        then have "lookup (graft p n c) q' = lookup c q'" by (rule Cons.IH)
        then show ?thesis using Dir Some q True by (simp add: update_conv')
      next
        case False
        then show ?thesis using Dir Some q by (simp add: update_conv')
      qed
    qed
  qed
qed

lemma lookup_below_absent: "lookup tr p = None \<Longrightarrow> lookup tr (p @ r) = None"
  by (simp add: lookup_append)

lemma wf_entries_map_of: "wf_entries es \<Longrightarrow> map_of es k = Some c \<Longrightarrow> wf_node c"
  by (induction es) (auto split: if_splits)

lemma wf_lookup: "wf_node tr \<Longrightarrow> lookup tr p = Some n \<Longrightarrow> wf_node n"
proof (induction p arbitrary: tr)
  case Nil
  then show ?case by simp
next
  case (Cons k p)
  show ?case
  proof (cases tr)
    case (File bytes)
    with Cons.prems show ?thesis by simp
  next
    case (Dir es)
    with Cons.prems obtain c where c: "map_of es k = Some c" and l: "lookup c p = Some n"
      by (auto split: option.splits)
    have "wf_node c" using Cons.prems(1) Dir c by (auto intro: wf_entries_map_of)
    then show ?thesis using l by (rule Cons.IH)
  qed
qed

lemma no_file_aboveD:
  assumes "no_file_above tr d" and "prefix a d"
  shows "lookup tr a \<noteq> Some (File bytes)"
proof -
  have "a \<in> set (prefixes d)" using assms(2) by simp
  with assms(1) have "case lookup tr a of Some (File _) \<Rightarrow> False | _ \<Rightarrow> True"
    unfolding no_file_above_def list_all_iff by blast
  then show ?thesis by auto
qed

subsection \<open>A copy that returns no error has grafted the source\<close>

lemma mkdir_success:
  assumes "mkdir flt p tr = (None, tr')"
  shows "tr' = graft p (Dir []) tr \<and> lookup tr p = None \<and> (\<exists>ds. lookup tr (butlast p) = Some (Dir ds))
     \<and> \<not> flt p"
  using assms
  by (auto simp add: mkdir_def split: option.splits node.splits if_splits)

lemma copyFile_success:
  assumes "copyFile flt bytes p tr = (None, tr')"
  shows "tr' = graft p (File bytes) tr \<and> (\<exists>ds. lookup tr (butlast p) = Some (Dir ds)) \<and> \<not> flt p"
  using assms
  by (auto simp add: copyFile_def split: option.splits node.splits if_splits)

lemma copy_node_success:
  "wf_node n \<Longrightarrow> lookup tr dst = None \<Longrightarrow> copy_node flt n dst tr = (None, tr') \<Longrightarrow>
     tr' = graft dst n tr"
and copy_children_success:
  "wf_entries es \<Longrightarrow> distinct (map fst es) \<Longrightarrow> lookup tr dst = Some (Dir ds) \<Longrightarrow>
   \<forall>k \<in> fst ` set es. map_of ds k = None \<Longrightarrow> copy_children flt es dst tr = (None, tr') \<Longrightarrow>
     tr' = graft dst (Dir (ds @ es)) tr"
proof (induction flt n dst tr and flt es dst tr arbitrary: tr' and tr' ds
    rule: copy_node_copy_children.induct)
  case (1 flt bytes dst tr)
  then show ?case by (simp add: copyFile_success)
next
  case (2 flt es dst tr)
  from "2.prems" obtain tr1 where mk: "mkdir flt dst tr = (None, tr1)"
    and ch: "copy_children flt es dst tr1 = (None, tr')"
    by (auto split: prod.splits option.splits)
  from mkdir_success [OF mk] obtain ds0 where tr1: "tr1 = graft dst (Dir []) tr"
    and par: "lookup tr (butlast dst) = Some (Dir ds0)"
    by blast
  have ne: "dst \<noteq> []" using "2.prems"(2) by (rule lookup_root_absent)
  have l1: "lookup tr1 dst = Some (Dir [])"
    unfolding tr1 using ne par by (rule lookup_graft_new)
  have "tr' = graft dst (Dir ([] @ es)) tr1"
    using "2.prems"(1) l1 ch
    by (intro "2.IH"(1) [OF "2.prems"(2) mk [symmetric] refl]) simp_all
  then show ?case by (simp add: tr1 graft_graft)
next
  case (3 flt dst tr)
  then show ?case by (simp add: graft_same)
next
  case (4 flt k c es dst tr)
  obtain y tr1 where c0: "copy_node flt c (dst @ [k]) tr = (y, tr1)"
    by (cases "copy_node flt c (dst @ [k]) tr")
  obtain z tr2 where ch0: "copy_children flt es dst tr1 = (z, tr2)"
    by (cases "copy_children flt es dst tr1")
  from "4.prems"(5) c0 ch0 have "y = None" and "z = None" and "tr2 = tr'"
    by (auto split: option.splits)
  with c0 ch0 have c1: "copy_node flt c (dst @ [k]) tr = (None, tr1)"
    and ch: "copy_children flt es dst tr1 = (None, tr')"
    by simp_all
  have kn: "map_of ds k = None" using "4.prems"(4) by simp
  have absent: "lookup tr (dst @ [k]) = None"
    using "4.prems"(3) kn by (simp add: lookup_append)
  have "tr1 = graft (dst @ [k]) c tr"
    using "4.prems"(1) absent c1 by (intro "4.IH"(1)) simp_all
  then have tr1: "tr1 = graft dst (Dir (ds @ [(k, c)])) tr"
    using "4.prems"(3) kn by (simp add: graft_snoc)
  have l1: "lookup tr1 dst = Some (Dir (ds @ [(k, c)]))"
    unfolding tr1 using "4.prems"(3) by (rule lookup_graft_existing)
  have fresh: "\<forall>j \<in> fst ` set es. map_of (ds @ [(k, c)]) j = None"
    using "4.prems"(2,4) by (auto simp add: map_add_def)
  have "tr' = graft dst (Dir ((ds @ [(k, c)]) @ es)) tr1"
    using "4.prems"(1,2) l1 fresh ch
    by (intro "4.IH"(2) [OF c1 [symmetric]]) simp_all
  then show ?case by (simp add: tr1 graft_graft)
qed

lemma copy_node_parent:
  assumes "lookup tr dst = None" and "copy_node flt n dst tr = (None, tr')"
  shows "\<exists>ds. lookup tr (butlast dst) = Some (Dir ds)"
proof (cases n)
  case (File bytes)
  with assms(2) show ?thesis by (simp add: copyFile_success)
next
  case (Dir es)
  with assms obtain tr1 where "mkdir flt dst tr = (None, tr1)"
    by (auto split: prod.splits option.splits)
  then show ?thesis using mkdir_success by blast
qed

lemma copy_node_lookup:
  assumes "wf_node n" and "lookup tr dst = None" and "copy_node flt n dst tr = (None, tr')"
  shows "lookup tr' dst = Some n"
proof -
  have g: "tr' = graft dst n tr" using assms by (rule copy_node_success)
  obtain ds where par: "lookup tr (butlast dst) = Some (Dir ds)"
    using copy_node_parent [OF assms(2,3)] by blast
  have ne: "dst \<noteq> []" using assms(2) by (rule lookup_root_absent)
  show ?thesis unfolding g using ne par by (rule lookup_graft_new)
qed

lemma mkdirs_keeps_absent:
  "mkdirs flt pre ks tr = (None, tr1) \<Longrightarrow> r \<noteq> [] \<Longrightarrow> lookup tr (pre @ ks @ r) = None \<Longrightarrow>
     lookup tr1 (pre @ ks @ r) = None"
proof (induction ks arbitrary: pre tr)
  case Nil
  then show ?case by simp
next
  case (Cons k ks)
  show ?case
  proof (cases "lookup tr (pre @ [k])")
    case None
    with Cons.prems(1) obtain tr2 where mk: "mkdir flt (pre @ [k]) tr = (None, tr2)"
      and rest: "mkdirs flt (pre @ [k]) ks tr2 = (None, tr1)"
      by (auto split: prod.splits option.splits)
    from mkdir_success [OF mk] obtain ds where tr2: "tr2 = graft (pre @ [k]) (Dir []) tr"
      and par: "lookup tr (butlast (pre @ [k])) = Some (Dir ds)"
      by blast
    have l2: "lookup tr2 (pre @ [k]) = Some (Dir [])"
      unfolding tr2 using par by (intro lookup_graft_new) simp_all
    have "lookup tr2 ((pre @ [k]) @ (ks @ r)) =
        (case lookup tr2 (pre @ [k]) of None \<Rightarrow> None | Some m \<Rightarrow> lookup m (ks @ r))"
      by (rule lookup_append)
    also have "\<dots> = None"
      using Cons.prems(2) by (simp add: l2 lookup_empty_Dir_below)
    finally have "lookup tr2 ((pre @ [k]) @ ks @ r) = None" .
    with Cons.IH [OF rest Cons.prems(2)] show ?thesis by simp
  next
    case (Some x)
    show ?thesis
    proof (cases x)
      case (File bytes)
      with Some Cons.prems(1) show ?thesis by simp
    next
      case (Dir es)
      with Some Cons.prems(1) have rest: "mkdirs flt (pre @ [k]) ks tr = (None, tr1)" by simp
      from Cons.IH [OF rest Cons.prems(2)] Cons.prems(3) show ?thesis by simp
    qed
  qed
qed

lemma copy_success:
  assumes wf: "wf_node tr" and absent: "\<not> existsSync tr dest"
    and ok: "copy flt tr src dest = (None, tr')"
  shows "\<exists>n. lookup tr (fs_path src) = Some n \<and> lookup tr' (fs_path dest) = Some n"
proof -
  let ?s = "fs_path src" and ?d = "fs_path dest"
  have a: "lookup tr ?d = None" using absent by (simp add: existsSync_def)
  obtain n where n: "lookup tr ?s = Some n"
    using ok by (cases "lookup tr ?s") (simp_all add: copy_def Let_def)
  from ok n obtain tr1 where mk: "mkdirs flt [] (butlast ?d) tr = (None, tr1)"
    and cp: "copy_node flt n ?d tr1 = (None, tr')"
    by (auto simp add: copy_def Let_def split: if_splits prod.splits option.splits)
  have ne: "?d \<noteq> []" using a by (rule lookup_root_absent)
  then have d: "[] @ butlast ?d @ [last ?d] = ?d" by simp
  have "lookup tr1 ([] @ butlast ?d @ [last ?d]) = None"
    using mk by (rule mkdirs_keeps_absent) (simp_all only: d a, simp)
  then have a1: "lookup tr1 ?d = None" by (simp only: d)
  have "wf_node n" using wf n by (rule wf_lookup)
  then have "lookup tr' ?d = Some n" using a1 cp by (rule copy_node_lookup)
  with n show ?thesis by blast
qed

subsection \<open>Without faults the copy returns no error\<close>

lemma mkdir_runs:
  "\<not> flt p \<Longrightarrow> lookup tr p = None \<Longrightarrow> lookup tr (butlast p) = Some (Dir ds) \<Longrightarrow>
     mkdir flt p tr = (None, graft p (Dir []) tr)"
  by (simp add: mkdir_def)

lemma copy_node_runs:
  "\<forall>p. \<not> flt p \<Longrightarrow> wf_node n \<Longrightarrow> lookup tr dst = None \<Longrightarrow>
   lookup tr (butlast dst) = Some (Dir dp) \<Longrightarrow>
     copy_node flt n dst tr = (None, graft dst n tr)"
and copy_children_runs:
  "\<forall>p. \<not> flt p \<Longrightarrow> wf_entries es \<Longrightarrow> distinct (map fst es) \<Longrightarrow>
   lookup tr dst = Some (Dir ds) \<Longrightarrow> \<forall>k \<in> fst ` set es. map_of ds k = None \<Longrightarrow>
     copy_children flt es dst tr = (None, graft dst (Dir (ds @ es)) tr)"
proof (induction flt n dst tr and flt es dst tr arbitrary: dp and ds
    rule: copy_node_copy_children.induct)
  case (1 flt bytes dst tr)
  then show ?case by (simp add: copyFile_def)
next
  case (2 flt es dst tr)
  have mk: "mkdir flt dst tr = (None, graft dst (Dir []) tr)"
    using "2.prems"(1,3,4) by (simp add: mkdir_runs)
  have ne: "dst \<noteq> []" using "2.prems"(3) by (rule lookup_root_absent)
  have l1: "lookup (graft dst (Dir []) tr) dst = Some (Dir [])"
    using ne "2.prems"(4) by (rule lookup_graft_new)
  have "copy_children flt es dst (graft dst (Dir []) tr) =
      (None, graft dst (Dir ([] @ es)) (graft dst (Dir []) tr))"
    using "2.prems"(1,2) l1
    by (intro "2.IH"(1) [OF "2.prems"(3) mk [symmetric] refl]) simp_all
  then show ?case using "2.prems"(3) mk by (simp add: graft_graft)
next
  case (3 flt dst tr)
  then show ?case by (simp add: graft_same)
next
  case (4 flt k c es dst tr)
  have kn: "map_of ds k = None" using "4.prems"(5) by simp
  have absent: "lookup tr (dst @ [k]) = None"
    using "4.prems"(4) kn by (simp add: lookup_append)
  have "copy_node flt c (dst @ [k]) tr = (None, graft (dst @ [k]) c tr)"
    using "4.prems"(1,2,4) absent by (intro "4.IH"(1) [where dp = ds]) simp_all
  then have c1: "copy_node flt c (dst @ [k]) tr = (None, graft dst (Dir (ds @ [(k, c)])) tr)"
    using "4.prems"(4) kn by (simp add: graft_snoc)
  have l1: "lookup (graft dst (Dir (ds @ [(k, c)])) tr) dst = Some (Dir (ds @ [(k, c)]))"
    using "4.prems"(4) by (rule lookup_graft_existing)
  have fresh: "\<forall>j \<in> fst ` set es. map_of (ds @ [(k, c)]) j = None"
    using "4.prems"(3,5) by (auto simp add: map_add_def)
  have "copy_children flt es dst (graft dst (Dir (ds @ [(k, c)])) tr) =
      (None, graft dst (Dir ((ds @ [(k, c)]) @ es)) (graft dst (Dir (ds @ [(k, c)])) tr))"
    using "4.prems"(1,2,3) l1 fresh
    by (intro "4.IH"(2) [OF c1 [symmetric]]) simp_all
  then show ?case using c1 by (simp add: graft_graft)
qed

lemma mkdirs_runs:
  "\<forall>p. \<not> flt p \<Longrightarrow> lookup tr pre = Some (Dir ds) \<Longrightarrow>
   (\<And>a bytes. prefix a ks \<Longrightarrow> lookup tr (pre @ a) \<noteq> Some (File bytes)) \<Longrightarrow>
     \<exists>tr1 ds1. mkdirs flt pre ks tr = (None, tr1) \<and> lookup tr1 (pre @ ks) = Some (Dir ds1)"
proof (induction ks arbitrary: pre tr ds)
  case Nil
  then show ?case by simp
next
  case (Cons k ks)
  show ?case
  proof (cases "lookup tr (pre @ [k])")
    case None
    have mk: "mkdir flt (pre @ [k]) tr = (None, graft (pre @ [k]) (Dir []) tr)"
      using Cons.prems(1,2) None by (intro mkdir_runs [where ds = ds]) simp_all
    let ?tr2 = "graft (pre @ [k]) (Dir []) tr"
    have l2: "lookup ?tr2 (pre @ [k]) = Some (Dir [])"
      using Cons.prems(2) by (intro lookup_graft_new [where ds = ds]) simp_all
    have below: "lookup ?tr2 ((pre @ [k]) @ a) \<noteq> Some (File bytes)" for a bytes
    proof -
      have "lookup ?tr2 ((pre @ [k]) @ a) =
          (case lookup ?tr2 (pre @ [k]) of None \<Rightarrow> None | Some m \<Rightarrow> lookup m a)"
        by (rule lookup_append)
      then show ?thesis by (cases a) (simp_all add: l2)
    qed
    from Cons.IH [OF Cons.prems(1) l2 below]
    obtain tr1 ds1 where "mkdirs flt (pre @ [k]) ks ?tr2 = (None, tr1)"
      and "lookup tr1 ((pre @ [k]) @ ks) = Some (Dir ds1)"
      by blast
    then show ?thesis using None mk by simp
  next
    case (Some x)
    have "x \<noteq> File bytes" for bytes
      using Cons.prems(3) [of "[k]" bytes] Some by auto
    then obtain es where x: "x = Dir es" by (cases x) auto
    have below: "lookup tr ((pre @ [k]) @ a) \<noteq> Some (File bytes)" if "prefix a ks" for a bytes
      using Cons.prems(3) [of "k # a" bytes] that by simp
    from Cons.IH [OF Cons.prems(1) Some [unfolded x] below]
    obtain tr1 ds1 where "mkdirs flt (pre @ [k]) ks tr = (None, tr1)"
      and "lookup tr1 ((pre @ [k]) @ ks) = Some (Dir ds1)"
      by blast
    then show ?thesis using Some x by simp
  qed
qed

lemma copy_runs:
  assumes nofault: "\<forall>p. \<not> flt p" and wf: "wf_node tr"
    and absent: "\<not> existsSync tr dest"
    and above: "no_file_above tr (fs_path dest)"
    and tpl: "lookup tr (fs_path src) = Some n"
    and outside: "\<not> prefix (fs_path src) (fs_path dest)"
  shows "\<exists>tr'. copy flt tr src dest = (None, tr') \<and> lookup tr' (fs_path dest) = Some n"
proof -
  let ?s = "fs_path src" and ?d = "fs_path dest"
  have a: "lookup tr ?d = None" using absent by (simp add: existsSync_def)
  have ne: "?d \<noteq> []" using a by (rule lookup_root_absent)
  then have d: "[] @ butlast ?d @ [last ?d] = ?d" by simp
  have "lookup tr [] \<noteq> Some (File bytes)" for bytes
    using no_file_aboveD [OF above, of "[]"] by simp
  then obtain ds where root: "lookup tr [] = Some (Dir ds)"
    by (cases tr) auto
  have below: "lookup tr ([] @ a) \<noteq> Some (File bytes)" if "prefix a (butlast ?d)" for a bytes
  proof -
    have "prefix (butlast ?d) ?d" by (rule prefixeq_butlast)
    with that have "prefix a ?d" by (rule prefix_order.trans)
    then show ?thesis using no_file_aboveD [OF above] by simp
  qed
  have "\<exists>tr1 ds1. mkdirs flt [] (butlast ?d) tr = (None, tr1) \<and>
      lookup tr1 ([] @ butlast ?d) = Some (Dir ds1)"
    using nofault root by (rule mkdirs_runs) (rule below)
  then obtain tr1 ds1 where mk: "mkdirs flt [] (butlast ?d) tr = (None, tr1)"
    and par: "lookup tr1 (butlast ?d) = Some (Dir ds1)"
    by auto
  have "lookup tr1 ([] @ butlast ?d @ [last ?d]) = None"
    using mk by (rule mkdirs_keeps_absent) (simp_all only: d a, simp)
  then have a1: "lookup tr1 ?d = None" by (simp only: d)
  have wfn: "wf_node n" using wf tpl by (rule wf_lookup)
  have cp: "copy_node flt n ?d tr1 = (None, graft ?d n tr1)"
    using nofault wfn a1 par by (rule copy_node_runs)
  have "copy flt tr src dest = (None, graft ?d n tr1)"
    using tpl outside mk cp by (simp add: copy_def Let_def)
  moreover have "lookup (graft ?d n tr1) ?d = Some n"
    using ne par by (rule lookup_graft_new)
  ultimately show ?thesis by blast
qed

subsection \<open>What a copy leaves alone\<close>

lemma mkdir_frame:
  assumes "mkdir flt a tr = (x, tr')" and "\<not> prefix q a"
  shows "lookup tr' q = lookup tr q"
proof (cases x)
  case (Some err)
  with assms(1) have "tr' = tr"
    by (auto simp add: mkdir_def split: option.splits node.splits if_splits)
  then show ?thesis by simp
next
  case None
  with assms(1) obtain ds where g: "tr' = graft a (Dir []) tr" and ab: "lookup tr a = None"
    and par: "lookup tr (butlast a) = Some (Dir ds)"
    using mkdir_success by blast
  show ?thesis
  proof (cases "prefix a q")
    case False
    then show ?thesis unfolding g using assms(2) by (rule lookup_graft_other)
  next
    case True
    then obtain r where r: "q = a @ r" by (auto simp add: prefix_def)
    with assms(2) have rne: "r \<noteq> []" by auto
    have ne: "a \<noteq> []" using ab by (rule lookup_root_absent)
    have "lookup tr' a = Some (Dir [])" unfolding g using ne par by (rule lookup_graft_new)
    then have "lookup tr' (a @ r) = None"
      using rne by (simp add: lookup_append [of tr' a] lookup_empty_Dir_below)
    moreover have "lookup tr (a @ r) = None" using ab by (rule lookup_below_absent)
    ultimately show ?thesis by (simp add: r)
  qed
qed

lemma copyFile_frame:
  assumes "copyFile flt bytes p tr = (x, tr')" and "\<not> prefix q p" and "\<not> prefix p q"
  shows "lookup tr' q = lookup tr q"
proof -
  have "tr' = tr \<or> tr' = graft p (File bytes) tr"
    using assms(1) by (auto simp add: copyFile_def split: option.splits node.splits if_splits)
  then show ?thesis using assms(2,3) by (auto simp add: lookup_graft_other)
qed

lemma mkdirs_frame:
  "mkdirs flt pre ks tr = (x, tr') \<Longrightarrow> \<not> prefix q (pre @ ks) \<Longrightarrow> lookup tr' q = lookup tr q"
proof (induction ks arbitrary: pre tr)
  case Nil
  then show ?case by simp
next
  case (Cons k ks)
  have nq: "\<not> prefix q (pre @ [k])"
  proof
    assume "prefix q (pre @ [k])"
    moreover have "prefix (pre @ [k]) (pre @ k # ks)" by simp
    ultimately have "prefix q (pre @ k # ks)" by (rule prefix_order.trans)
    with Cons.prems(2) show False by simp
  qed
  have nq': "\<not> prefix q ((pre @ [k]) @ ks)" using Cons.prems(2) by simp
  show ?case
  proof (cases "lookup tr (pre @ [k])")
    case None
    obtain y tr2 where mk: "mkdir flt (pre @ [k]) tr = (y, tr2)"
      by (cases "mkdir flt (pre @ [k]) tr")
    have f2: "lookup tr2 q = lookup tr q" using mk nq by (rule mkdir_frame)
    show ?thesis
    proof (cases y)
      case (Some err)
      with Cons.prems(1) None mk have "tr' = tr2" by simp
      with f2 show ?thesis by simp
    next
      case nn: None
      with Cons.prems(1) None mk have "mkdirs flt (pre @ [k]) ks tr2 = (x, tr')" by simp
      from Cons.IH [OF this nq'] f2 show ?thesis by simp
    qed
  next
    case (Some nd)
    show ?thesis
    proof (cases nd)
      case (File bytes)
      with Some Cons.prems(1) show ?thesis by simp
    next
      case (Dir es)
      with Some Cons.prems(1) have "mkdirs flt (pre @ [k]) ks tr = (x, tr')" by simp
      from Cons.IH [OF this nq'] show ?thesis .
    qed
  qed
qed

lemma copy_node_frame:
  "copy_node flt n dst tr = (x, tr') \<Longrightarrow> \<not> prefix q dst \<Longrightarrow> \<not> prefix dst q \<Longrightarrow>
     lookup tr' q = lookup tr q"
and copy_children_frame:
  "copy_children flt es dst tr = (x, tr') \<Longrightarrow> \<not> prefix q dst \<Longrightarrow> \<not> prefix dst q \<Longrightarrow>
     lookup tr' q = lookup tr q"
proof (induction flt n dst tr and flt es dst tr arbitrary: x tr' and x tr'
    rule: copy_node_copy_children.induct)
  case (1 flt bytes dst tr)
  then show ?case by (simp add: copyFile_frame)
next
  case (2 flt es dst tr)
  show ?case
  proof (cases "lookup tr dst")
    case None
    obtain y tr1 where mk: "mkdir flt dst tr = (y, tr1)" by (cases "mkdir flt dst tr")
    have f1: "lookup tr1 q = lookup tr q" using mk "2.prems"(2) by (rule mkdir_frame)
    show ?thesis
    proof (cases y)
      case (Some err)
      with "2.prems"(1) None mk have "tr' = tr1" by simp
      with f1 show ?thesis by simp
    next
      case nn: None
      with "2.prems"(1) None mk have ch: "copy_children flt es dst tr1 = (x, tr')" by simp
      have "lookup tr' q = lookup tr1 q"
        using ch "2.prems"(2,3) by (intro "2.IH"(1) [OF None mk [symmetric] nn])
      with f1 show ?thesis by simp
    qed
  next
    case (Some nd)
    show ?thesis
    proof (cases nd)
      case (File bytes)
      with Some "2.prems"(1) show ?thesis by simp
    next
      case (Dir ds)
      with Some "2.prems"(1) have ch: "copy_children flt es dst tr = (x, tr')" by simp
      show ?thesis using ch "2.prems"(2,3) by (intro "2.IH"(2) [OF Some Dir])
    qed
  qed
next
  case (3 flt dst tr)
  then show ?case by simp
next
  case (4 flt k c es dst tr)
  obtain y tr1 where c1: "copy_node flt c (dst @ [k]) tr = (y, tr1)"
    by (cases "copy_node flt c (dst @ [k]) tr")
  have n1: "\<not> prefix q (dst @ [k])"
    using "4.prems"(2,3) by auto
  have n2: "\<not> prefix (dst @ [k]) q"
    using "4.prems"(3) by (auto simp add: prefix_def)
  have f1: "lookup tr1 q = lookup tr q" using c1 n1 n2 by (rule "4.IH"(1))
  obtain z tr2 where ch: "copy_children flt es dst tr1 = (z, tr2)"
    by (cases "copy_children flt es dst tr1")
  from "4.prems"(1) c1 ch have "tr2 = tr'" by simp
  with ch have ch': "copy_children flt es dst tr1 = (z, tr')" by simp
  have "lookup tr' q = lookup tr1 q"
    using ch' "4.prems"(2,3) by (intro "4.IH"(2) [OF c1 [symmetric]])
  with f1 show ?case by simp
qed

lemma copy_frame:
  assumes "copy flt tr src dest = (x, tr')"
    and "\<not> prefix q (fs_path dest)" and "\<not> prefix (fs_path dest) q"
  shows "lookup tr' q = lookup tr q"
proof (cases "lookup tr (fs_path src)")
  case None
  with assms(1) show ?thesis by (simp add: copy_def Let_def)
next
  case (Some n)
  let ?d = "fs_path dest"
  show ?thesis
  proof (cases "is_dir n \<and> prefix (fs_path src) ?d")
    case True
    with assms(1) Some show ?thesis by (simp add: copy_def Let_def)
  next
    case False
    obtain y tr1 where mk: "mkdirs flt [] (butlast ?d) tr = (y, tr1)"
      by (cases "mkdirs flt [] (butlast ?d) tr")
    have "\<not> prefix q ([] @ butlast ?d)"
    proof
      assume "prefix q ([] @ butlast ?d)"
      moreover have "prefix (butlast ?d) ?d" by (rule prefixeq_butlast)
      ultimately have "prefix q ?d" by (simp add: prefix_order.trans)
      with assms(2) show False by simp
    qed
    with mk have f1: "lookup tr1 q = lookup tr q" by (rule mkdirs_frame)
    show ?thesis
    proof (cases y)
      case (Some err)
      with assms(1) \<open>lookup tr (fs_path src) = Some n\<close> False mk have "tr' = tr1"
        by (simp add: copy_def Let_def)
      with f1 show ?thesis by simp
    next
      case None
      with assms(1) \<open>lookup tr (fs_path src) = Some n\<close> False mk
      have "copy_node flt n ?d tr1 = (x, tr')"
        by (simp add: copy_def Let_def)
      then have "lookup tr' q = lookup tr1 q" using assms(2,3) by (rule copy_node_frame)
      with f1 show ?thesis by simp
    qed
  qed
qed

section \<open>Runs of \<open>init\<close>\<close>

lemma prompts_questions:
  "prompts questions u =
     (case at_select u of
        Abort \<Rightarrow> (Map.empty, [''template''])
      | Answer i \<Rightarrow>
          (case at_text u of
             Abort \<Rightarrow> ([''template'' \<mapsto> ''content-creator''], [''template'', ''projectName''])
           | Answer s \<Rightarrow>
               ([''template'' \<mapsto> ''content-creator'', ''projectName'' \<mapsto> entered_name s],
                [''template'', ''projectName''])))"
  by (simp add: prompts_def questions_def entered_name_def split: input.splits)

lemma init_abort_select:
  "at_select u = Abort \<Longrightarrow>
     init e u = \<lparr>exit_code = 1, stdout = [Welcome, Cancelled], stderr = [], asked = [''template''],
                fs_calls = [], fs_after = fs e\<rparr>"
  by (simp add: init_def prompts_questions init_body_def)

lemma init_abort_text:
  "at_select u = Answer i \<Longrightarrow> at_text u = Abort \<Longrightarrow>
     init e u = \<lparr>exit_code = 1, stdout = [Welcome, Cancelled], stderr = [],
                asked = [''template'', ''projectName''], fs_calls = [], fs_after = fs e\<rparr>"
  by (simp add: init_def prompts_questions init_body_def)

lemma init_answered:
  "at_select u = Answer i \<Longrightarrow> at_text u = Answer s \<Longrightarrow>
     init e u =
       init_body e [''template'' \<mapsto> ''content-creator'', ''projectName'' \<mapsto> entered_name s]
         [''template'', ''projectName'']"
  by (simp add: init_def prompts_questions)

lemma entered_name_nonempty: "entered_name s \<noteq> []"
  by (simp add: entered_name_def)

lemma init_body_proceeds:
  "response ''template'' = Some t \<Longrightarrow> t \<noteq> [] \<Longrightarrow>
   response ''projectName'' = Some n \<Longrightarrow> n \<noteq> [] \<Longrightarrow>
   init_body e response shown =
     (if existsSync (fs e) (targetDir e n) then
        \<lparr>exit_code = 1, stdout = [Welcome, AlreadyExists n], stderr = [],
         asked = shown, fs_calls = [ExistsSync (targetDir e n)], fs_after = fs e\<rparr>
      else
        (case copy (io_fault e) (fs e) (templateDir e t) (targetDir e n) of
           (None, fs') \<Rightarrow>
             \<lparr>exit_code = 0,
              stdout = [Welcome, Creating (targetDir e n), Created, NextSteps, CdInto n,
                        RunOpencode],
              stderr = [], asked = shown,
              fs_calls = [ExistsSync (targetDir e n), Copy (templateDir e t) (targetDir e n)],
              fs_after = fs'\<rparr>
         | (Some err, fs') \<Rightarrow>
             \<lparr>exit_code = 0, stdout = [Welcome, Creating (targetDir e n)],
              stderr = [CopyFailed err], asked = shown,
              fs_calls = [ExistsSync (targetDir e n), Copy (templateDir e t) (targetDir e n)],
              fs_after = fs'\<rparr>))"
  by (simp add: init_body_def Let_def)

lemma init_body_cancelled:
  "response ''template'' = None \<or> response ''template'' = Some [] \<or>
   response ''projectName'' = None \<or> response ''projectName'' = Some [] \<Longrightarrow>
   init_body e response shown =
     \<lparr>exit_code = 1, stdout = [Welcome, Cancelled], stderr = [], asked = shown,
      fs_calls = [], fs_after = fs e\<rparr>"
  by (auto simp add: init_body_def Let_def split: option.splits)

lemma init_run:
  "at_select u = Answer i \<Longrightarrow> at_text u = Answer s \<Longrightarrow>
   init e u =
     (if existsSync (fs e) (targetDir e (entered_name s)) then
        \<lparr>exit_code = 1, stdout = [Welcome, AlreadyExists (entered_name s)], stderr = [],
         asked = [''template'', ''projectName''],
         fs_calls = [ExistsSync (targetDir e (entered_name s))], fs_after = fs e\<rparr>
      else
        (case copy (io_fault e) (fs e) (templateDir e ''content-creator'')
                (targetDir e (entered_name s)) of
           (None, fs') \<Rightarrow>
             \<lparr>exit_code = 0,
              stdout = [Welcome, Creating (targetDir e (entered_name s)), Created, NextSteps,
                        CdInto (entered_name s), RunOpencode],
              stderr = [], asked = [''template'', ''projectName''],
              fs_calls = [ExistsSync (targetDir e (entered_name s)),
                          Copy (templateDir e ''content-creator'') (targetDir e (entered_name s))],
              fs_after = fs'\<rparr>
         | (Some err, fs') \<Rightarrow>
             \<lparr>exit_code = 0, stdout = [Welcome, Creating (targetDir e (entered_name s))],
              stderr = [CopyFailed err], asked = [''template'', ''projectName''],
              fs_calls = [ExistsSync (targetDir e (entered_name s)),
                          Copy (templateDir e ''content-creator'') (targetDir e (entered_name s))],
              fs_after = fs'\<rparr>))"
  by (simp add: init_answered entered_name_nonempty
      init_body_proceeds [where t = "''content-creator''" and n = "entered_name s"])

lemma fs_calls_shape:
  "fs_calls (init e u) = [] \<and> fs_after (init e u) = fs e \<or>
   (\<exists>n. fs_calls (init e u) = [ExistsSync (targetDir e n)] \<and> fs_after (init e u) = fs e \<and>
        existsSync (fs e) (targetDir e n)) \<or>
   (\<exists>n t. fs_calls (init e u) =
            [ExistsSync (targetDir e n), Copy (templateDir e t) (targetDir e n)] \<and>
        \<not> existsSync (fs e) (targetDir e n) \<and>
        fs_after (init e u) = snd (copy (io_fault e) (fs e) (templateDir e t) (targetDir e n)))"
proof (cases "at_select u")
  case Abort
  then show ?thesis by (simp add: init_abort_select)
next
  case (Answer i)
  note sel = this
  show ?thesis
  proof (cases "at_text u")
    case Abort
    with sel show ?thesis by (simp add: init_abort_text)
  next
    case (Answer s)
    note run = init_run [OF sel Answer, of e]
    show ?thesis
    proof (cases "existsSync (fs e) (targetDir e (entered_name s))")
      case True
      then have "fs_calls (init e u) = [ExistsSync (targetDir e (entered_name s))] \<and>
          fs_after (init e u) = fs e \<and> existsSync (fs e) (targetDir e (entered_name s))"
        by (simp add: run)
      then show ?thesis by blast
    next
      case False
      then have "fs_calls (init e u) = [ExistsSync (targetDir e (entered_name s)),
            Copy (templateDir e ''content-creator'') (targetDir e (entered_name s))] \<and>
          \<not> existsSync (fs e) (targetDir e (entered_name s)) \<and>
          fs_after (init e u) =
            snd (copy (io_fault e) (fs e) (templateDir e ''content-creator'')
                   (targetDir e (entered_name s)))"
        by (simp add: run split: prod.splits option.splits)
      then show ?thesis by blast
    qed
  qed
qed

lemma copy_call:
  assumes "Copy src dst \<in> set (fs_calls (init e u))"
  obtains i s where "at_select u = Answer i" and "at_text u = Answer s"
    and "src = templateDir e ''content-creator''" and "dst = targetDir e (entered_name s)"
    and "\<not> existsSync (fs e) dst"
proof (cases "at_select u")
  case Abort
  with assms show ?thesis by (simp add: init_abort_select)
next
  case (Answer i)
  note sel = this
  show ?thesis
  proof (cases "at_text u")
    case Abort
    with sel assms show ?thesis by (simp add: init_abort_text)
  next
    case (Answer s)
    with sel assms that [of i s] show ?thesis
      by (auto simp add: init_run [of u i s e] split: if_splits prod.splits option.splits)
  qed
qed

text \<open>
  The select question returns \<open>content-creator\<close> or nothing, so no run of \<open>init\<close> holds
  another identifier; and once it has returned an identifier the name question has been
  shown, both being asked by the one \<open>prompts\<close> call of line 14.
\<close>

lemma select_returns_known:
  "fst (prompts questions u) ''template'' = None \<or>
   fst (prompts questions u) ''template'' = Some ''content-creator''"
  by (simp add: prompts_questions split: input.splits)

lemma name_question_follows_template:
  "fst (prompts questions u) ''template'' = Some t \<Longrightarrow>
     snd (prompts questions u) = [''template'', ''projectName'']"
  by (simp add: prompts_questions split: input.splits)

section \<open>The claims\<close>

subsection \<open>A copy that fails\<close>

text \<open>
  C1. The claim asks for a non-zero exit status when the copy fails. The \<open>catch\<close> of line
  54 prints the error and returns, so the run ends with status 0: whenever \<open>fs.copy\<close>
  fails with \<open>err\<close>, the run reports \<open>err\<close> on the error stream, keeps what the copy had
  written, and exits with status 0.
\<close>

theorem copy_failure_exits_zero:
  "at_select u = Answer i \<Longrightarrow> at_text u = Answer s \<Longrightarrow>
   \<not> existsSync (fs e) (targetDir e (entered_name s)) \<Longrightarrow>
   copy (io_fault e) (fs e) (templateDir e ''content-creator'') (targetDir e (entered_name s))
     = (Some err, fs') \<Longrightarrow>
   exit_code (init e u) = 0 \<and> stderr (init e u) = [CopyFailed err] \<and> fs_after (init e u) = fs'"
  by (simp add: init_run [of u i s e])

theorem copy_failure_exits_zero_witness:
  "exit_code (init faulty_env (user_of ''w'')) = 0 \<and>
   stderr (init faulty_env (user_of ''w'')) =
     [CopyFailed (EACCES [''home'', ''u'', ''w'', ''.opencode''])] \<and>
   lookup (fs_after (init faulty_env (user_of ''w''))) [''home'', ''u'', ''w''] =
     Some (Dir [(''SKILL.md'', File ''skill'')])"
proof -
  have h1: "at_select (user_of ''w'') = Answer 0" and h2: "at_text (user_of ''w'') = Answer ''w''"
    by (simp_all add: user_of_def)
  have h3: "\<not> existsSync (fs faulty_env) (targetDir faulty_env (entered_name ''w''))"
    by code_simp
  have h4: "copy (io_fault faulty_env) (fs faulty_env) (templateDir faulty_env ''content-creator'')
       (targetDir faulty_env (entered_name ''w'')) =
     (Some (EACCES [''home'', ''u'', ''w'', ''.opencode'']),
      graft [''home'', ''u'', ''w''] (Dir [(''SKILL.md'', File ''skill'')]) example_fs)"
    by code_simp
  have h5: "lookup (graft [''home'', ''u'', ''w''] (Dir [(''SKILL.md'', File ''skill'')]) example_fs)
       [''home'', ''u'', ''w''] = Some (Dir [(''SKILL.md'', File ''skill'')])"
    by code_simp
  from copy_failure_exits_zero [OF h1 h2 h3 h4] h5 show ?thesis by simp
qed

subsection \<open>Empty and blank names\<close>

text \<open>
  C2, as claimed, fails: a name of two spaces is used as it is (the existence check and
  the copy run on \<open>/home/u/  \<close>, after two questions), and a response whose name is the
  empty string ends the run with status 1.
\<close>

theorem blank_name_counterexample:
  "fs_calls (init example_env (user_of ''  '')) =
     [ExistsSync ''/home/u/  '', Copy ''/pkg/templates/content-creator'' ''/home/u/  ''] \<and>
   asked (init example_env (user_of ''  '')) = [''template'', ''projectName''] \<and>
   lookup (fs_after (init example_env (user_of ''  ''))) [''home'', ''u'', ''  ''] =
     lookup example_fs [''pkg'', ''templates'', ''content-creator''] \<and>
   exit_code (init_body example_env
       [''template'' \<mapsto> ''content-creator'', ''projectName'' \<mapsto> '''']
       [''template'', ''projectName'']) = 1"
  by code_simp

text \<open>
  C2, amended. No question is asked twice. The line the user submits is the name, and an
  empty line stands for \<open>my-opencode-workspace\<close>; every name that was entered, blank ones
  included, goes to the existence check. A response with no name or the empty name is
  handled as a cancellation: status 1, no filesystem call, filesystem unchanged.
\<close>

theorem blank_name_handling:
  "(asked (init e u) = [''template''] \<or> asked (init e u) = [''template'', ''projectName'']) \<and>
   entered_name s = (if s = [] then ''my-opencode-workspace'' else s) \<and>
   (at_select u = Answer i \<and> at_text u = Answer s \<longrightarrow>
      (\<exists>rest. fs_calls (init e u) = ExistsSync (targetDir e (entered_name s)) # rest)) \<and>
   (response ''projectName'' = None \<or> response ''projectName'' = Some [] \<longrightarrow>
      exit_code (init_body e response shown) = 1 \<and>
      stdout (init_body e response shown) = [Welcome, Cancelled] \<and>
      fs_calls (init_body e response shown) = [] \<and>
      fs_after (init_body e response shown) = fs e)"
proof (intro conjI impI)
  show "asked (init e u) = [''template''] \<or> asked (init e u) = [''template'', ''projectName'']"
    by (cases "at_select u"; cases "at_text u")
       (simp_all add: init_abort_select init_abort_text init_run split: prod.splits option.splits)
  show "entered_name s = (if s = [] then ''my-opencode-workspace'' else s)"
    by (simp add: entered_name_def)
next
  assume "at_select u = Answer i \<and> at_text u = Answer s"
  then show "\<exists>rest. fs_calls (init e u) = ExistsSync (targetDir e (entered_name s)) # rest"
    by (simp add: init_run [of u i s e] split: prod.splits option.splits)
next
  assume a: "response ''projectName'' = None \<or> response ''projectName'' = Some []"
  then have out: "init_body e response shown =
     \<lparr>exit_code = 1, stdout = [Welcome, Cancelled], stderr = [], asked = shown,
      fs_calls = [], fs_after = fs e\<rparr>"
    by (intro init_body_cancelled) blast
  show "exit_code (init_body e response shown) = 1" by (simp add: out)
  show "stdout (init_body e response shown) = [Welcome, Cancelled]" by (simp add: out)
  show "fs_calls (init_body e response shown) = []" by (simp add: out)
  show "fs_after (init_body e response shown) = fs e" by (simp add: out)
qed

theorem blank_name_handling_witness:
  "asked (init example_env (user_of ''  '')) = [''template'', ''projectName''] \<and>
   entered_name ''  '' = ''  '' \<and>
   (\<exists>rest. fs_calls (init example_env (user_of ''  '')) =
       ExistsSync (targetDir example_env (entered_name ''  '')) # rest) \<and>
   exit_code (init_body example_env [''template'' \<mapsto> ''content-creator'', ''projectName'' \<mapsto> ''''] []) = 1 \<and>
   fs_calls (init_body example_env [''template'' \<mapsto> ''content-creator'', ''projectName'' \<mapsto> ''''] []) = [] \<and>
   fs_after (init_body example_env [''template'' \<mapsto> ''content-creator'', ''projectName'' \<mapsto> ''''] []) = example_fs"
proof -
  have h1: "at_select (user_of ''  '') = Answer 0 \<and> at_text (user_of ''  '') = Answer ''  ''"
    by (simp add: user_of_def)
  have h2: "[''template'' \<mapsto> ''content-creator'', ''projectName'' \<mapsto> ''''] ''projectName'' = Some []"
    by simp
  have h3: "asked (init example_env (user_of ''  '')) \<noteq> [''template'']"
    by code_simp
  have h4: "fs example_env = example_fs"
    by (simp add: example_env_def)
  from blank_name_handling [of example_env "user_of ''  ''" "''  ''" 0
      "[''template'' \<mapsto> ''content-creator'', ''projectName'' \<mapsto> '''']" "[]"] h1 h2 h3 h4
  show ?thesis by auto
qed

subsection \<open>The target exists\<close>

text \<open>
  C3. When the resolved target is there, as any node \<open>nd\<close> (a file, or a directory with
  any entries), the run prints that the directory already exists, exits with status 1,
  makes no call but the existence check and leaves the filesystem unchanged. And in every
  run that calls \<open>fs.copy\<close>, the call before it is the existence check of the copy's own
  destination, which answered that the destination is not there.
\<close>

theorem existing_target_is_refused:
  "(at_select u = Answer i \<and> at_text u = Answer s \<and>
    lookup (fs e) (fs_path (targetDir e (entered_name s))) = Some nd \<longrightarrow>
      exit_code (init e u) = 1 \<and>
      stdout (init e u) = [Welcome, AlreadyExists (entered_name s)] \<and>
      fs_calls (init e u) = [ExistsSync (targetDir e (entered_name s))] \<and>
      fs_after (init e u) = fs e) \<and>
   (Copy src dst \<in> set (fs_calls (init e' u')) \<longrightarrow>
      fs_calls (init e' u') = [ExistsSync dst, Copy src dst] \<and> \<not> existsSync (fs e') dst)"
proof (intro conjI impI)
  assume a: "at_select u = Answer i \<and> at_text u = Answer s \<and>
    lookup (fs e) (fs_path (targetDir e (entered_name s))) = Some nd"
  then have ex: "existsSync (fs e) (targetDir e (entered_name s))"
    by (simp add: existsSync_def)
  have out: "init e u =
      \<lparr>exit_code = 1, stdout = [Welcome, AlreadyExists (entered_name s)], stderr = [],
       asked = [''template'', ''projectName''],
       fs_calls = [ExistsSync (targetDir e (entered_name s))], fs_after = fs e\<rparr>"
    using a ex by (simp add: init_run [of u i s e])
  show "exit_code (init e u) = 1" by (simp add: out)
  show "stdout (init e u) = [Welcome, AlreadyExists (entered_name s)]" by (simp add: out)
  show "fs_calls (init e u) = [ExistsSync (targetDir e (entered_name s))]" by (simp add: out)
  show "fs_after (init e u) = fs e" by (simp add: out)
next
  assume c: "Copy src dst \<in> set (fs_calls (init e' u'))"
  from fs_calls_shape [of e' u'] c
  show "fs_calls (init e' u') = [ExistsSync dst, Copy src dst]" by auto
  from fs_calls_shape [of e' u'] c
  show "\<not> existsSync (fs e') dst" by auto
qed

theorem existing_target_is_refused_witness:
  "lookup (fs example_env) (fs_path (targetDir example_env (entered_name ''notes.txt''))) =
     Some (File ''n'') \<and>
   exit_code (init example_env (user_of ''notes.txt'')) = 1 \<and>
   stdout (init example_env (user_of ''notes.txt'')) =
     [Welcome, AlreadyExists (entered_name ''notes.txt'')] \<and>
   fs_calls (init example_env (user_of ''notes.txt'')) =
     [ExistsSync (targetDir example_env (entered_name ''notes.txt''))] \<and>
   fs_after (init example_env (user_of ''notes.txt'')) = fs example_env \<and>
   Copy ''/pkg/templates/content-creator'' ''/home/u/w''
     \<in> set (fs_calls (init example_env (user_of ''w''))) \<and>
   fs_calls (init example_env (user_of ''w'')) =
     [ExistsSync ''/home/u/w'', Copy ''/pkg/templates/content-creator'' ''/home/u/w''] \<and>
   \<not> existsSync (fs example_env) ''/home/u/w''"
proof -
  have h1: "lookup (fs example_env) (fs_path (targetDir example_env (entered_name ''notes.txt'')))
      = Some (File ''n'')"
    by code_simp
  have h2: "Copy ''/pkg/templates/content-creator'' ''/home/u/w''
      \<in> set (fs_calls (init example_env (user_of ''w'')))"
    by code_simp
  have h3: "at_select (user_of ''notes.txt'') = Answer 0 \<and>
      at_text (user_of ''notes.txt'') = Answer ''notes.txt''"
    by (simp add: user_of_def)
  from existing_target_is_refused [of "user_of ''notes.txt''" 0 "''notes.txt''" example_env
      "File ''n''" "''/pkg/templates/content-creator''" "''/home/u/w''" example_env "user_of ''w''"]
    h1 h2 h3
  show ?thesis by blast
qed

subsection \<open>A copy that completes\<close>

text \<open>
  C4. In a filesystem whose directories have distinct entry names, whenever a run has
  called \<open>fs.copy\<close> and printed no error, the exit status is 0 and the node at the
  destination is the node that was at the source when the run began: the same entries in
  the same order, with the same bytes, so that every relative path leads to the same file
  or directory on both sides.
\<close>

theorem faithful_copy:
  "wf_node (fs e) \<Longrightarrow> Copy src dst \<in> set (fs_calls (init e u)) \<Longrightarrow> stderr (init e u) = [] \<Longrightarrow>
     exit_code (init e u) = 0 \<and>
     (\<exists>tpl. lookup (fs e) (fs_path src) = Some tpl \<and>
            lookup (fs_after (init e u)) (fs_path dst) = Some tpl) \<and>
     (\<forall>p. lookup (fs_after (init e u)) (fs_path dst @ p) = lookup (fs e) (fs_path src @ p))"
proof -
  assume wf: "wf_node (fs e)" and call: "Copy src dst \<in> set (fs_calls (init e u))"
    and quiet: "stderr (init e u) = []"
  from call obtain i s where sel: "at_select u = Answer i" and ans: "at_text u = Answer s"
    and src: "src = templateDir e ''content-creator''" and dst: "dst = targetDir e (entered_name s)"
    and absent: "\<not> existsSync (fs e) dst"
    by (rule copy_call)
  note run = init_run [OF sel ans, of e]
  obtain err tr' where c: "copy (io_fault e) (fs e) src dst = (err, tr')"
    by (cases "copy (io_fault e) (fs e) src dst")
  have none: "err = None"
    using quiet absent c by (cases err) (simp_all add: run src dst)
  have out: "exit_code (init e u) = 0" "fs_after (init e u) = tr'"
    using absent c none by (simp_all add: run src dst)
  from copy_success [OF wf absent c [unfolded none]]
  obtain tpl where t: "lookup (fs e) (fs_path src) = Some tpl" "lookup tr' (fs_path dst) = Some tpl"
    by blast
  have "lookup tr' (fs_path dst @ p) = lookup (fs e) (fs_path src @ p)" for p
    by (simp add: lookup_append t)
  with out t show ?thesis by simp
qed

theorem faithful_copy_witness:
  "wf_node (fs example_env) \<and>
   Copy ''/pkg/templates/content-creator'' ''/home/u/my-workspace''
     \<in> set (fs_calls (init example_env (user_of ''my-workspace''))) \<and>
   stderr (init example_env (user_of ''my-workspace'')) = [] \<and>
   exit_code (init example_env (user_of ''my-workspace'')) = 0 \<and>
   lookup (fs_after (init example_env (user_of ''my-workspace'')))
       (fs_path ''/home/u/my-workspace'' @ [''.opencode'', ''commands'', ''draft.md'']) =
     Some (File ''d'')"
proof -
  have h1: "wf_node (fs example_env)" by code_simp
  have h2: "Copy ''/pkg/templates/content-creator'' ''/home/u/my-workspace''
     \<in> set (fs_calls (init example_env (user_of ''my-workspace'')))" by code_simp
  have h3: "stderr (init example_env (user_of ''my-workspace'')) = []" by code_simp
  have h4: "lookup (fs example_env)
      (fs_path ''/pkg/templates/content-creator'' @ [''.opencode'', ''commands'', ''draft.md'']) =
     Some (File ''d'')" by code_simp
  from faithful_copy [OF h1 h2 h3] h1 h2 h3 h4 show ?thesis by simp
qed

subsection \<open>Cancellation\<close>

text \<open>
  C5. When the user aborts the template question or the name question, the process exits
  with status 1, has made no filesystem call, and leaves the filesystem as it found it.
\<close>

theorem cancel_leaves_filesystem:
  "at_select u = Abort \<or> at_text u = Abort \<Longrightarrow>
     exit_code (init e u) = 1 \<and> fs_calls (init e u) = [] \<and> fs_after (init e u) = fs e"
  by (cases "at_select u") (auto simp add: init_abort_select init_abort_text)

theorem cancel_leaves_filesystem_witness:
  "at_text \<lparr>at_select = Answer 0, at_text = Abort\<rparr> = (Abort :: string input) \<and>
   exit_code (init example_env \<lparr>at_select = Answer 0, at_text = Abort\<rparr>) = 1 \<and>
   fs_calls (init example_env \<lparr>at_select = Answer 0, at_text = Abort\<rparr>) = [] \<and>
   fs_after (init example_env \<lparr>at_select = Answer 0, at_text = Abort\<rparr>) = example_fs"
  using cancel_leaves_filesystem [of "\<lparr>at_select = Answer 0, at_text = Abort\<rparr>" example_env]
  by (simp add: example_env_def)

subsection \<open>Resolving the destination name\<close>

text \<open>
  C7. With the absolute working directory of a process, resolving a destination name
  gives an absolute path, and resolving that path again gives the same path; the result
  is a function of the name and the working directory alone, whatever the filesystem
  holds and whatever fails in it.
\<close>

theorem resolution_is_idempotent:
  "isAbsolute (cwd e) \<Longrightarrow>
     isAbsolute (targetDir e rawName) \<and>
     targetDir e (targetDir e rawName) = targetDir e rawName \<and>
     targetDir (e\<lparr>fs := f, io_fault := g\<rparr>) rawName = targetDir e rawName"
proof -
  assume a: "isAbsolute (cwd e)"
  obtain segs where r: "path_resolve (cwd e) [cwd e, rawName] = CHR ''/'' # join segs"
    and c: "clean segs"
    using path_resolve_cwd_clean [OF a] by blast
  have "isAbsolute (targetDir e rawName)"
    by (simp add: targetDir_def r isAbsolute_def)
  moreover have "targetDir e (targetDir e rawName) = targetDir e rawName"
    by (simp add: targetDir_def r path_resolve_rooted [OF a c])
  moreover have "targetDir (e\<lparr>fs := f, io_fault := g\<rparr>) rawName = targetDir e rawName"
    by (simp add: targetDir_def)
  ultimately show ?thesis by blast
qed

theorem resolution_is_idempotent_witness:
  "isAbsolute (cwd example_env) \<and>
   targetDir example_env ''a/../b/./c//'' = ''/home/u/b/c'' \<and>
   isAbsolute (targetDir example_env ''a/../b/./c//'') \<and>
   targetDir example_env (targetDir example_env ''a/../b/./c//'') =
     targetDir example_env ''a/../b/./c//'' \<and>
   targetDir (example_env\<lparr>fs := Dir [], io_fault := (\<lambda>p. True)\<rparr>) ''a/../b/./c//'' =
     targetDir example_env ''a/../b/./c//''"
proof -
  have h1: "isAbsolute (cwd example_env)" by code_simp
  have h2: "targetDir example_env ''a/../b/./c//'' = ''/home/u/b/c''" by code_simp
  from resolution_is_idempotent [OF h1, where rawName = "''a/../b/./c//''" and f = "Dir []"
      and g = "\<lambda>p. True"] h1 h2
  show ?thesis by simp
qed

subsection \<open>Filesystem calls of a run\<close>

text \<open>
  C8. A run makes no filesystem call, or only the existence check of the target (which
  then exists), or the existence check followed by one \<open>fs.copy\<close> into the target that the
  check reported absent. A run without a copy leaves the filesystem as it was. A run with
  a copy leaves what that one copy leaves, which differs from the filesystem before only
  at the target, below it, and in the directories above it.
\<close>

theorem writes_only_by_the_copy:
  "(fs_calls (init e u) = [] \<or>
    (\<exists>n. fs_calls (init e u) = [ExistsSync (targetDir e n)] \<and> existsSync (fs e) (targetDir e n)) \<or>
    (\<exists>n t. fs_calls (init e u) =
             [ExistsSync (targetDir e n), Copy (templateDir e t) (targetDir e n)] \<and>
           \<not> existsSync (fs e) (targetDir e n))) \<and>
   ((\<forall>src dst. Copy src dst \<notin> set (fs_calls (init e u))) \<longrightarrow> fs_after (init e u) = fs e) \<and>
   (Copy src' dst' \<in> set (fs_calls (init e' u')) \<longrightarrow>
      fs_after (init e' u') = snd (copy (io_fault e') (fs e') src' dst') \<and>
      (\<forall>q. \<not> prefix q (fs_path dst') \<and> \<not> prefix (fs_path dst') q \<longrightarrow>
           lookup (fs_after (init e' u')) q = lookup (fs e') q))"
proof (intro conjI impI)
  show "fs_calls (init e u) = [] \<or>
    (\<exists>n. fs_calls (init e u) = [ExistsSync (targetDir e n)] \<and> existsSync (fs e) (targetDir e n)) \<or>
    (\<exists>n t. fs_calls (init e u) =
             [ExistsSync (targetDir e n), Copy (templateDir e t) (targetDir e n)] \<and>
           \<not> existsSync (fs e) (targetDir e n))"
    using fs_calls_shape [of e u] by blast
next
  assume "\<forall>src dst. Copy src dst \<notin> set (fs_calls (init e u))"
  then show "fs_after (init e u) = fs e"
    using fs_calls_shape [of e u] by auto
next
  assume c: "Copy src' dst' \<in> set (fs_calls (init e' u'))"
  then show after: "fs_after (init e' u') = snd (copy (io_fault e') (fs e') src' dst')"
    using fs_calls_shape [of e' u'] by auto
  show "\<forall>q. \<not> prefix q (fs_path dst') \<and> \<not> prefix (fs_path dst') q \<longrightarrow>
           lookup (fs_after (init e' u')) q = lookup (fs e') q"
  proof (intro allI impI)
    fix q
    assume q: "\<not> prefix q (fs_path dst') \<and> \<not> prefix (fs_path dst') q"
    obtain x tr' where r: "copy (io_fault e') (fs e') src' dst' = (x, tr')"
      by (cases "copy (io_fault e') (fs e') src' dst'")
    from q have "lookup tr' q = lookup (fs e') q"
      by (intro copy_frame [OF r]) blast+
    then show "lookup (fs_after (init e' u')) q = lookup (fs e') q" by (simp add: after r)
  qed
qed

theorem writes_only_by_the_copy_witness:
  "fs_calls (init example_env (user_of ''notes.txt'')) = [ExistsSync ''/home/u/notes.txt''] \<and>
   fs_after (init example_env (user_of ''notes.txt'')) = fs example_env \<and>
   Copy ''/pkg/templates/content-creator'' ''/home/u/w''
     \<in> set (fs_calls (init faulty_env (user_of ''w''))) \<and>
   fs_path ''/home/u/w'' = [''home'', ''u'', ''w''] \<and>
   lookup (fs_after (init faulty_env (user_of ''w''))) [''home'', ''u'', ''notes.txt''] =
     lookup (fs faulty_env) [''home'', ''u'', ''notes.txt'']"
proof -
  have h1: "fs_calls (init example_env (user_of ''notes.txt'')) = [ExistsSync ''/home/u/notes.txt'']"
    by code_simp
  have h2: "Copy ''/pkg/templates/content-creator'' ''/home/u/w''
     \<in> set (fs_calls (init faulty_env (user_of ''w'')))"
    by code_simp
  have h3: "fs_path ''/home/u/w'' = [''home'', ''u'', ''w'']"
    by code_simp
  have h4: "\<not> prefix [''home'', ''u'', ''notes.txt''] [''home'', ''u'', ''w''] \<and>
      \<not> prefix [''home'', ''u'', ''w''] [''home'', ''u'', ''notes.txt'']"
    by simp
  note t = writes_only_by_the_copy [of example_env "user_of ''notes.txt''"
      "''/pkg/templates/content-creator''" "''/home/u/w''" faulty_env "user_of ''w''"]
  from t h1 have c1: "fs_after (init example_env (user_of ''notes.txt'')) = fs example_env"
    by simp
  from t h2 have "\<forall>q. \<not> prefix q (fs_path ''/home/u/w'') \<and> \<not> prefix (fs_path ''/home/u/w'') q \<longrightarrow>
      lookup (fs_after (init faulty_env (user_of ''w''))) q = lookup (fs faulty_env) q"
    by blast
  with h4 have c2: "lookup (fs_after (init faulty_env (user_of ''w''))) [''home'', ''u'', ''notes.txt''] =
     lookup (fs faulty_env) [''home'', ''u'', ''notes.txt'']"
    unfolding h3 by blast
  from h1 c1 h2 h3 c2 show ?thesis by blast
qed

subsection \<open>Names with separators\<close>

text \<open>
  C9, as claimed, fails twice. The absolute name \<open>/opt/x\<close> is not joined to the working
  directory \<open>/home/u\<close>: the target is \<open>/opt/x\<close> and nothing appears under \<open>/home/u\<close>. And for
  the name \<open>notes.txt/x\<close>, where \<open>notes.txt\<close> is a file, the target does not exist, yet the
  copy fails with \<open>ENOTDIR\<close> and writes nothing.
\<close>

theorem nested_name_counterexample:
  "targetDir example_env ''/opt/x'' = ''/opt/x'' \<and>
   fs_calls (init example_env (user_of ''/opt/x'')) =
     [ExistsSync ''/opt/x'', Copy ''/pkg/templates/content-creator'' ''/opt/x''] \<and>
   lookup (fs_after (init example_env (user_of ''/opt/x''))) [''home'', ''u'', ''opt''] = None \<and>
   \<not> existsSync (fs example_env) (targetDir example_env ''notes.txt/x'') \<and>
   stderr (init example_env (user_of ''notes.txt/x'')) =
     [CopyFailed (ENOTDIR [''home'', ''u'', ''notes.txt''])] \<and>
   fs_after (init example_env (user_of ''notes.txt/x'')) = example_fs"
  by code_simp

text \<open>
  C9, amended. Names with separators are accepted. Under an absolute working directory a
  relative name gives the segments of the working directory followed by those of the name,
  normalised, and an absolute name gives its own segments, normalised. When the target
  does not exist, no directory entry on the way to it is a regular file, the template
  exists, the target does not lie inside the template and no I/O error occurs, the run
  exits with status 0 and prints no error, the target holds the template, and every
  directory above the target exists.
\<close>

theorem nested_name_creates_directories:
  "(isAbsolute (cwd e) \<and> n \<noteq> [] \<and> \<not> isAbsolute n \<longrightarrow>
      fs_path (targetDir e n) =
        normalize_segments False (splitc CHR ''/'' (cwd e) @ splitc CHR ''/'' n)) \<and>
   (isAbsolute (cwd e) \<and> isAbsolute n' \<longrightarrow>
      fs_path (targetDir e n') = normalize_segments False (splitc CHR ''/'' n')) \<and>
   (at_select u = Answer i \<and> at_text u = Answer s \<and> wf_node (fs e) \<and> (\<forall>p. \<not> io_fault e p) \<and>
    \<not> existsSync (fs e) (targetDir e (entered_name s)) \<and>
    no_file_above (fs e) (fs_path (targetDir e (entered_name s))) \<and>
    lookup (fs e) (fs_path (templateDir e ''content-creator'')) = Some tpl \<and>
    \<not> prefix (fs_path (templateDir e ''content-creator'')) (fs_path (targetDir e (entered_name s)))
    \<longrightarrow>
      exit_code (init e u) = 0 \<and> stderr (init e u) = [] \<and>
      lookup (fs_after (init e u)) (fs_path (targetDir e (entered_name s))) = Some tpl \<and>
      (\<forall>a. strict_prefix a (fs_path (targetDir e (entered_name s))) \<longrightarrow>
           (\<exists>es. lookup (fs_after (init e u)) a = Some (Dir es))))"
proof (intro conjI impI)
  assume "isAbsolute (cwd e) \<and> n \<noteq> [] \<and> \<not> isAbsolute n"
  then show "fs_path (targetDir e n) =
        normalize_segments False (splitc CHR ''/'' (cwd e) @ splitc CHR ''/'' n)"
    by (simp add: fs_path_targetDir)
next
  assume a: "isAbsolute (cwd e) \<and> isAbsolute n'"
  then have "n' \<noteq> []" by (simp add: isAbsolute_nonempty)
  with a show "fs_path (targetDir e n') = normalize_segments False (splitc CHR ''/'' n')"
    by (simp add: fs_path_targetDir)
next
  let ?t = "targetDir e (entered_name s)" and ?src = "templateDir e ''content-creator''"
  assume a: "at_select u = Answer i \<and> at_text u = Answer s \<and> wf_node (fs e) \<and>
    (\<forall>p. \<not> io_fault e p) \<and> \<not> existsSync (fs e) ?t \<and> no_file_above (fs e) (fs_path ?t) \<and>
    lookup (fs e) (fs_path ?src) = Some tpl \<and> \<not> prefix (fs_path ?src) (fs_path ?t)"
  then have sel: "at_select u = Answer i" and ans: "at_text u = Answer s"
    and absent: "\<not> existsSync (fs e) ?t"
    by simp_all
  have "\<exists>tr'. copy (io_fault e) (fs e) ?src ?t = (None, tr') \<and> lookup tr' (fs_path ?t) = Some tpl"
    using a by (intro copy_runs) simp_all
  then obtain tr' where c: "copy (io_fault e) (fs e) ?src ?t = (None, tr')"
    and l: "lookup tr' (fs_path ?t) = Some tpl"
    by blast
  have out: "exit_code (init e u) = 0" "stderr (init e u) = []" "fs_after (init e u) = tr'"
    using absent c by (simp_all add: init_run [OF sel ans, of e])
  show "exit_code (init e u) = 0" by (rule out)
  show "stderr (init e u) = []" by (rule out)
  show "lookup (fs_after (init e u)) (fs_path ?t) = Some tpl" by (simp add: out l)
  show "\<forall>a. strict_prefix a (fs_path ?t) \<longrightarrow> (\<exists>es. lookup (fs_after (init e u)) a = Some (Dir es))"
  proof (intro allI impI)
    fix a
    assume "strict_prefix a (fs_path ?t)"
    then obtain r where r: "fs_path ?t = a @ r" "r \<noteq> []"
      by (auto simp add: strict_prefix_def prefix_def)
    then have "lookup tr' (a @ r) = Some tpl" using l by simp
    then have "\<exists>es. lookup tr' a = Some (Dir es)" using r(2) by (rule lookup_prefix_Dir)
    then show "\<exists>es. lookup (fs_after (init e u)) a = Some (Dir es)" by (simp add: out)
  qed
qed

theorem nested_name_creates_directories_witness:
  "fs_path (targetDir example_env ''a/b'') = [''home'', ''u'', ''a'', ''b''] \<and>
   fs_path (targetDir example_env ''/opt/x'') = [''opt'', ''x''] \<and>
   \<not> existsSync (fs example_env) (targetDir example_env (entered_name ''a/b'')) \<and>
   lookup (fs example_env) [''home'', ''u'', ''a''] = None \<and>
   exit_code (init example_env (user_of ''a/b'')) = 0 \<and>
   stderr (init example_env (user_of ''a/b'')) = [] \<and>
   lookup (fs_after (init example_env (user_of ''a/b''))) [''home'', ''u'', ''a'', ''b''] =
     lookup example_fs [''pkg'', ''templates'', ''content-creator''] \<and>
   (\<exists>es. lookup (fs_after (init example_env (user_of ''a/b''))) [''home'', ''u'', ''a''] =
      Some (Dir es))"
proof -
  let ?tpl = "Dir [(''SKILL.md'', File ''skill''),
                   (''.opencode'', Dir [(''commands'', Dir [(''draft.md'', File ''d'')])])]"
  have h1: "isAbsolute (cwd example_env) \<and> ''a/b'' \<noteq> [] \<and> \<not> isAbsolute ''a/b''"
    by code_simp
  have h2: "isAbsolute (cwd example_env) \<and> isAbsolute ''/opt/x''"
    by code_simp
  have h3: "at_select (user_of ''a/b'') = Answer 0 \<and> at_text (user_of ''a/b'') = Answer ''a/b''"
    by (simp add: user_of_def)
  have h4: "wf_node (fs example_env)"
    by code_simp
  have h5: "\<forall>p. \<not> io_fault example_env p"
    by (simp add: example_env_def)
  have h6: "\<not> existsSync (fs example_env) (targetDir example_env (entered_name ''a/b''))"
    by code_simp
  have h7: "no_file_above (fs example_env) (fs_path (targetDir example_env (entered_name ''a/b'')))"
    by code_simp
  have h8: "lookup (fs example_env) (fs_path (templateDir example_env ''content-creator'')) = Some ?tpl"
    by code_simp
  have h9: "\<not> prefix (fs_path (templateDir example_env ''content-creator''))
      (fs_path (targetDir example_env (entered_name ''a/b'')))"
    by code_simp
  have e1: "normalize_segments False (splitc CHR ''/'' (cwd example_env) @ splitc CHR ''/'' ''a/b'')
      = [''home'', ''u'', ''a'', ''b'']"
    by code_simp
  have e2: "normalize_segments False (splitc CHR ''/'' ''/opt/x'') = [''opt'', ''x'']"
    by code_simp
  have e3: "fs_path (targetDir example_env (entered_name ''a/b'')) = [''home'', ''u'', ''a'', ''b'']"
    by code_simp
  have e4: "lookup example_fs [''pkg'', ''templates'', ''content-creator''] = Some ?tpl"
    by code_simp
  have e5: "strict_prefix [''home'', ''u'', ''a''] [''home'', ''u'', ''a'', ''b'']"
    by simp
  have e6: "lookup (fs example_env) [''home'', ''u'', ''a''] = None"
    by code_simp
  note t = nested_name_creates_directories [of example_env "''a/b''" "''/opt/x''" "user_of ''a/b''"
      0 "''a/b''" ?tpl]
  from t h1 e1 have c1: "fs_path (targetDir example_env ''a/b'') = [''home'', ''u'', ''a'', ''b'']"
    by simp
  from t h2 e2 have c2: "fs_path (targetDir example_env ''/opt/x'') = [''opt'', ''x'']"
    by simp
  from t h3 h4 h5 h6 h7 h8 h9
  have c3: "exit_code (init example_env (user_of ''a/b'')) = 0 \<and>
      stderr (init example_env (user_of ''a/b'')) = [] \<and>
      lookup (fs_after (init example_env (user_of ''a/b'')))
        (fs_path (targetDir example_env (entered_name ''a/b''))) = Some ?tpl \<and>
      (\<forall>a. strict_prefix a (fs_path (targetDir example_env (entered_name ''a/b''))) \<longrightarrow>
           (\<exists>es. lookup (fs_after (init example_env (user_of ''a/b''))) a = Some (Dir es)))"
    by blast
  then have c4: "\<exists>es. lookup (fs_after (init example_env (user_of ''a/b''))) [''home'', ''u'', ''a'']
      = Some (Dir es)"
    using e5 unfolding e3 by blast
  from c1 c2 c3 c4 h6 e6 show ?thesis
    unfolding e3 e4 by blast
qed

subsection \<open>The template directory\<close>

text \<open>
  C10. For a script installed at an absolute location, the template directory of an
  identifier is the same in every environment with that script, whatever the working
  directory, the filesystem and the name; for \<open>content-creator\<close> it is the script's
  directory followed by \<open>../templates/content-creator\<close>, normalised; and the source of
  every \<open>fs.copy\<close> call of any two runs is that directory.
\<close>

theorem template_source_fixed:
  "isAbsolute (script_file e) \<and> script_file e' = script_file e \<longrightarrow>
     templateDir e' t = templateDir e t \<and>
     templateDir e ''content-creator'' =
       CHR ''/'' # normalizeString (path_dirname (script_file e) @ ''/../templates/content-creator/'') False \<and>
     (Copy src dst \<in> set (fs_calls (init e u)) \<and> Copy src' dst' \<in> set (fs_calls (init e' u')) \<longrightarrow>
        src = templateDir e ''content-creator'' \<and> src' = src)"
proof (intro impI)
  assume a: "isAbsolute (script_file e) \<and> script_file e' = script_file e"
  then have abs: "isAbsolute (script_file e)" and abs': "isAbsolute (script_file e')"
    and same: "dirname e' = dirname e"
    by (simp_all add: dirname_def)
  have t: "templateDir e' t = templateDir e t" for t
    by (simp add: templateDir_absolute_script [OF abs] templateDir_absolute_script [OF abs'] same)
  have r: "\<not> isAbsolute ''content-creator''"
    by (simp add: isAbsolute_def)
  have f: "templateDir e ''content-creator'' =
       CHR ''/'' # normalizeString (path_dirname (script_file e) @ ''/../templates/content-creator/'') False"
    using r by (simp add: templateDir_absolute_script [OF abs] dirname_def)
  have s: "Copy src dst \<in> set (fs_calls (init e u)) \<Longrightarrow> src = templateDir e ''content-creator''"
    for src dst e u
    by (cases "at_select u"; cases "at_text u")
       (auto simp add: init_abort_select init_abort_text init_run split: if_splits prod.splits option.splits)
  show "templateDir e' t = templateDir e t \<and>
     templateDir e ''content-creator'' =
       CHR ''/'' # normalizeString (path_dirname (script_file e) @ ''/../templates/content-creator/'') False \<and>
     (Copy src dst \<in> set (fs_calls (init e u)) \<and> Copy src' dst' \<in> set (fs_calls (init e' u')) \<longrightarrow>
        src = templateDir e ''content-creator'' \<and> src' = src)"
    using t f s [of src dst e u] s [of src' dst' e' u'] by auto
qed

theorem template_source_fixed_witness:
  "isAbsolute (script_file example_env) \<and>
   script_file (example_env\<lparr>cwd := ''/home''\<rparr>) = script_file example_env \<and>
   templateDir (example_env\<lparr>cwd := ''/home''\<rparr>) ''content-creator'' =
     templateDir example_env ''content-creator'' \<and>
   templateDir example_env ''content-creator'' = ''/pkg/templates/content-creator'' \<and>
   Copy ''/pkg/templates/content-creator'' ''/home/u/w''
     \<in> set (fs_calls (init example_env (user_of ''w''))) \<and>
   Copy ''/pkg/templates/content-creator'' ''/home/v''
     \<in> set (fs_calls (init (example_env\<lparr>cwd := ''/home''\<rparr>) (user_of ''v'')))"
proof -
  have h1: "isAbsolute (script_file example_env) \<and>
      script_file (example_env\<lparr>cwd := ''/home''\<rparr>) = script_file example_env"
    by code_simp
  have h2: "Copy ''/pkg/templates/content-creator'' ''/home/u/w''
      \<in> set (fs_calls (init example_env (user_of ''w'')))"
    by code_simp
  have h3: "Copy ''/pkg/templates/content-creator'' ''/home/v''
      \<in> set (fs_calls (init (example_env\<lparr>cwd := ''/home''\<rparr>) (user_of ''v'')))"
    by code_simp
  have h4: "templateDir example_env ''content-creator'' = ''/pkg/templates/content-creator''"
    by code_simp
  from template_source_fixed [of example_env "example_env\<lparr>cwd := ''/home''\<rparr>"
      "''content-creator''" "''/pkg/templates/content-creator''" "''/home/u/w''" "user_of ''w''"
      "''/pkg/templates/content-creator''" "''/home/v''" "user_of ''v''"] h1 h2 h3 h4
  show ?thesis by simp
qed

end
